theory Spec2Isabelle
  imports Complex_Main "HOL-Library.Multiset"
begin

chapter \<open>The embedding\<close>

section \<open>Python values shared by the modules\<close>

text \<open>
  The exceptions the modelled code can raise. A function that can raise returns
  \<open>error + 'a\<close>, with \<open>Inl\<close> carrying the exception. The first eight are Python's
  exception classes. \<open>Int64Overflow\<close> is the exception torch raises for a Python
  integer that does not fit its 64-bit signed integers, and \<open>OutOfMemory\<close> the one it
  raises when a tensor cannot be allocated.
\<close>

datatype error =
    ValueError
  | IndexError
  | RuntimeError
  | ZeroDivisionError
  | NotImplementedError
  | AttributeError
  | StopIteration
  | OverflowError
  | Int64Overflow
  | OutOfMemory

text \<open>
  Python's slice \<open>xs[start:stop]\<close> with step 1. A bound that is absent is \<open>None\<close>;
  a negative bound counts from the end; every bound is clipped to \<open>0 .. len(xs)\<close>.
\<close>

definition slice_index :: "nat \<Rightarrow> int \<Rightarrow> nat" where
  "slice_index n i = (if i < 0 then nat (i + int n) else min (nat i) n)"

definition py_slice :: "'a list \<Rightarrow> int option \<Rightarrow> int option \<Rightarrow> 'a list" where
  "py_slice xs start stop =
     (let n = length xs;
          s = (case start of None \<Rightarrow> 0 | Some i \<Rightarrow> slice_index n i);
          e = (case stop of None \<Rightarrow> n | Some j \<Rightarrow> slice_index n j)
      in take (e - s) (drop s xs))"

section \<open>The metric accumulator and the libraries the evaluators call\<close>

text \<open>
  Modelled from the spec: the class \<open>Metrics\<close> of \<open>crslab.evaluator.metrics\<close>, of
  which the evaluators call the constructor, \<open>add\<close> and \<open>clear\<close>, is not among the
  sources. The spec describes it as the metric accumulator, an "object collecting
  per-example metric values and producing an aggregate report at evaluation end". It
  is modelled by the values collected: the pairs of a key and a metric value, in the
  order they were added. A new accumulator is empty, \<open>add\<close> collects one more value
  and \<open>clear\<close> empties the accumulator.
\<close>

type_synonym 'v Metrics = "(string \<times> 'v) list"

definition Metrics_new :: "'v Metrics" where
  "Metrics_new = []"

definition Metrics_add :: "string \<Rightarrow> 'v \<Rightarrow> 'v Metrics \<Rightarrow> 'v Metrics" where
  "Metrics_add key val m = m @ [(key, val)]"

definition Metrics_clear :: "'v Metrics \<Rightarrow> 'v Metrics" where
  "Metrics_clear m = []"

text \<open>
  The metric computations are not among the sources either; the evaluators only pass
  their results on, so they are parameters: functions of the arguments they are
  called with. A computation that \<open>gen_evaluate\<close> calls returns a metric value or
  raises an exception. \<open>AverageMetric_div n d\<close> stands for \<open>AverageMetric(n / d)\<close> at
  a non-zero \<open>d\<close>.
\<close>

record ('r, 'l, 'v) rec_lib =
  HitMetric_compute :: "'r list \<Rightarrow> 'l \<Rightarrow> nat \<Rightarrow> 'v"
  NDCGMetric_compute :: "'r list \<Rightarrow> 'l \<Rightarrow> nat \<Rightarrow> 'v"
  MRRMetric_compute :: "'r list \<Rightarrow> 'l \<Rightarrow> nat \<Rightarrow> 'v"

record ('e, 'v) conv_lib =
  F1Metric_compute :: "string \<Rightarrow> string list \<Rightarrow> error + 'v"
  BleuMetric_compute :: "string \<Rightarrow> string list \<Rightarrow> nat \<Rightarrow> error + 'v"
  GreedyMatch_compute :: "'e list \<Rightarrow> 'e list list \<Rightarrow> error + 'v"
  EmbeddingAverage_compute :: "'e list \<Rightarrow> 'e list list \<Rightarrow> error + 'v"
  VectorExtrema_compute :: "'e list \<Rightarrow> 'e list list \<Rightarrow> error + 'v"
  AverageMetric_div :: "nat \<Rightarrow> int \<Rightarrow> 'v"

text \<open>
  The decimal numeral of a natural number, as an f-string formats \<open>{k}\<close>.
\<close>

fun str_nat :: "nat \<Rightarrow> string" where
  "str_nat n =
     (if n < 10 then [char_of (48 + n)]
      else str_nat (n div 10) @ [char_of (48 + n mod 10)])"

declare str_nat.simps [simp del]

text \<open>
  \<open>str.split()\<close> without arguments: the maximal runs of characters that are not
  whitespace. A \<open>char\<close> is a code point below 256, and the whitespace among these
  is what \<open>str.isspace\<close> accepts there.
\<close>

definition py_isspace :: "char \<Rightarrow> bool" where
  "py_isspace c \<longleftrightarrow>
     (of_char c :: nat) \<in> {9, 10, 11, 12, 13, 28, 29, 30, 31, 32, 133, 160}"

fun split_from :: "string \<Rightarrow> string \<Rightarrow> string list" where
  "split_from word [] = (if word = [] then [] else [word])"
| "split_from word (c # cs) =
     (if py_isspace c then
        (if word = [] then split_from [] cs else word # split_from [] cs)
      else split_from (word @ [c]) cs)"

definition py_split :: "string \<Rightarrow> string list" where
  "py_split sent = split_from [] sent"

text \<open>
  \<open>nltk.ngrams(sequence, n)\<close> without padding: the tuples of \<open>n\<close> consecutive
  elements, in their order; none when the sequence has fewer than \<open>n\<close> elements.
\<close>

definition ngrams :: "'a list \<Rightarrow> nat \<Rightarrow> 'a list list" where
  "ngrams xs n = map (\<lambda>i. take n (drop i xs)) [0..<length xs + 1 - n]"

section \<open>rec_evaluator.py: RecEvaluator\<close>

text \<open>
  \<^verbatim>\<open>
  class RecEvaluator(BaseEvaluator):
      def __init__(self):
          super(RecEvaluator, self).__init__()
          self.rec_metrics = Metrics()
          self.optim_metrics = Metrics()
  \<close>
\<close>

record 'v RecEvaluator =
  rec_metrics :: "'v Metrics"
  optim_metrics :: "'v Metrics"

definition RecEvaluator_init :: "'v RecEvaluator" where
  "RecEvaluator_init = \<lparr>rec_metrics = Metrics_new, optim_metrics = Metrics_new\<rparr>"

text \<open>
  \<^verbatim>\<open>
  def rec_evaluate(self, ranks, label):
      for k in [1, 10, 50]:
          if len(ranks) >= k:
              self.rec_metrics.add(f"hit@<k>", HitMetric.compute(ranks, label, k))
              self.rec_metrics.add(f"ndcg@<k>", NDCGMetric.compute(ranks, label, k))
              self.rec_metrics.add(f"mrr@<k>", MRRMetric.compute(ranks, label, k))
  \<close>
  \<open>rec_evaluate_k\<close> is the body of the loop. In the keys, \<open><k>\<close> stands for the
  replacement field of the f-string, braces around \<open>k\<close>.
\<close>

definition rec_evaluate_k ::
  "('r, 'l, 'v) rec_lib \<Rightarrow> 'r list \<Rightarrow> 'l \<Rightarrow> nat \<Rightarrow> 'v RecEvaluator \<Rightarrow> 'v RecEvaluator" where
  "rec_evaluate_k lib ranks label k self =
     (if k \<le> length ranks then
        self\<lparr>rec_metrics :=
          Metrics_add (''mrr@'' @ str_nat k) (MRRMetric_compute lib ranks label k)
            (Metrics_add (''ndcg@'' @ str_nat k) (NDCGMetric_compute lib ranks label k)
              (Metrics_add (''hit@'' @ str_nat k) (HitMetric_compute lib ranks label k)
                (rec_metrics self)))\<rparr>
      else self)"

definition rec_evaluate ::
  "('r, 'l, 'v) rec_lib \<Rightarrow> 'r list \<Rightarrow> 'l \<Rightarrow> 'v RecEvaluator \<Rightarrow> 'v RecEvaluator" where
  "rec_evaluate lib ranks label self = fold (rec_evaluate_k lib ranks label) [1, 10, 50] self"

text \<open>
  \<^verbatim>\<open>
  def reset_metrics(self):
      self.rec_metrics.clear()
      self.optim_metrics.clear()
  \<close>
\<close>

definition rec_reset_metrics :: "'v RecEvaluator \<Rightarrow> 'v RecEvaluator" where
  "rec_reset_metrics self =
     self\<lparr>rec_metrics := Metrics_clear (rec_metrics self),
          optim_metrics := Metrics_clear (optim_metrics self)\<rparr>"

section \<open>conv_evaluator.py: ConvEvaluator\<close>

text \<open>
  \<^verbatim>\<open>
  class ConvEvaluator(BaseEvaluator):
      def __init__(self):
          super(ConvEvaluator, self).__init__()
          self.dist_set = defaultdict(set)
          self.dist_cnt = 0
          self.gen_metrics = Metrics()
          self.optim_metrics = Metrics()
  \<close>
  \<open>dist_set\<close> is a dictionary from keys to sets of n-grams, kept as an association
  list in the order the keys were inserted, the order in which \<open>report\<close> reads it.
  The attribute \<open>ft\<close>, the embedding model, is absent until \<open>_load_embedding\<close> sets
  it; an absent attribute is \<open>None\<close>. A hypothesis and a reference are strings, so
  an n-gram is a tuple of characters.
\<close>

record ('e, 'v) ConvEvaluator =
  dist_set :: "(string \<times> string set) list"
  dist_cnt :: int
  gen_metrics :: "'v Metrics"
  optim_metrics :: "'v Metrics"
  ft :: "(string \<Rightarrow> 'e) option"

definition ConvEvaluator_init :: "('e, 'v) ConvEvaluator" where
  "ConvEvaluator_init =
     \<lparr>dist_set = [], dist_cnt = 0, gen_metrics = Metrics_new, optim_metrics = Metrics_new,
      ft = None\<rparr>"


text \<open>
  \<^verbatim>\<open>
  def _get_sent_embedding(self, sent):
      return [self.ft[token] for token in sent.split()]
  \<close>
  \<open>self.ft\<close> is read once for each token, so a sentence without tokens does not
  touch the attribute.
\<close>

definition get_sent_embedding :: "('e, 'v) ConvEvaluator \<Rightarrow> string \<Rightarrow> error + 'e list" where
  "get_sent_embedding self sent =
     (case py_split sent of
        [] \<Rightarrow> Inr []
      | token # tokens \<Rightarrow>
          (case ft self of
             None \<Rightarrow> Inl AttributeError
           | Some model \<Rightarrow> Inr (map model (token # tokens))))"

text \<open>The comprehension \<open>[self._get_sent_embedding(ref) for ref in refs]\<close>.\<close>

fun ref_embeddings :: "('e, 'v) ConvEvaluator \<Rightarrow> string list \<Rightarrow> error + 'e list list" where
  "ref_embeddings self [] = Inr []"
| "ref_embeddings self (ref # refs) =
     (case get_sent_embedding self ref of
        Inl e \<Rightarrow> Inl e
      | Inr emb \<Rightarrow>
          (case ref_embeddings self refs of
             Inl e \<Rightarrow> Inl e
           | Inr embs \<Rightarrow> Inr (emb # embs)))"

text \<open>
  \<open>self.dist_set[key].add(token)\<close> on the \<open>defaultdict(set)\<close>: a key that is missing
  is inserted with the empty set first.
\<close>

fun dist_add :: "string \<Rightarrow> string \<Rightarrow> (string \<times> string set) list \<Rightarrow> (string \<times> string set) list" where
  "dist_add key token [] = [(key, {token})]"
| "dist_add key token ((k, v) # rest) =
     (if k = key then (k, insert token v) # rest
      else (k, v) # dist_add key token rest)"

text \<open>
  \<^verbatim>\<open>
  def gen_evaluate(self, hyp, refs):
      if hyp:
          self.gen_metrics.add("f1", F1Metric.compute(hyp, refs))

          for k in range(1, 5):
              self.gen_metrics.add(f"bleu@<k>", BleuMetric.compute(hyp, refs, k))
              for token in ngrams(hyp, k):
                  self.dist_set[f"dist@<k>"].add(token)
          self.dist_cnt += 1

          hyp_emb = self._get_sent_embedding(hyp)
          ref_embs = [self._get_sent_embedding(ref) for ref in refs]
          self.gen_metrics.add('greedy', GreedyMatch.compute(hyp_emb, ref_embs))
          self.gen_metrics.add('average', EmbeddingAverage.compute(hyp_emb, ref_embs))
          self.gen_metrics.add('extreme', VectorExtrema.compute(hyp_emb, ref_embs))
  \<close>
  In the keys, \<open><k>\<close> stands for the replacement field of the f-string, braces
  around \<open>k\<close>. A call returns the exception it raised, if any, and the state it
  leaves: an exception does not undo the updates made before it. The argument of
  \<open>add\<close> is computed before \<open>add\<close> is called, so a computation that raises adds
  nothing.

  \<open>gen_evaluate_k\<close> is the body of the loop over \<open>k\<close> and \<open>gen_evaluate_loop\<close> the
  loop, which stops at the first \<open>k\<close> whose body raises.
\<close>

definition gen_evaluate_k ::
  "('e, 'v) conv_lib \<Rightarrow> string \<Rightarrow> string list \<Rightarrow> nat \<Rightarrow> ('e, 'v) ConvEvaluator \<Rightarrow>
     error + ('e, 'v) ConvEvaluator" where
  "gen_evaluate_k lib hyp refs k self =
     (case BleuMetric_compute lib hyp refs k of
        Inl e \<Rightarrow> Inl e
      | Inr bleu \<Rightarrow>
          Inr (self\<lparr>gen_metrics := Metrics_add (''bleu@'' @ str_nat k) bleu (gen_metrics self),
                    dist_set := fold (dist_add (''dist@'' @ str_nat k)) (ngrams hyp k)
                                  (dist_set self)\<rparr>))"

fun gen_evaluate_loop ::
  "('e, 'v) conv_lib \<Rightarrow> string \<Rightarrow> string list \<Rightarrow> nat list \<Rightarrow> ('e, 'v) ConvEvaluator \<Rightarrow>
     error option \<times> ('e, 'v) ConvEvaluator" where
  "gen_evaluate_loop lib hyp refs [] self = (None, self)"
| "gen_evaluate_loop lib hyp refs (k # ks) self =
     (case gen_evaluate_k lib hyp refs k self of
        Inl e \<Rightarrow> (Some e, self)
      | Inr self' \<Rightarrow> gen_evaluate_loop lib hyp refs ks self')"

text \<open>
  The five last statements of \<open>gen_evaluate\<close>: the embeddings of \<open>hyp\<close> and of the
  references, and the three embedding metrics, each added as soon as it is computed.
\<close>

definition embedding_metrics ::
  "('e, 'v) conv_lib \<Rightarrow> string \<Rightarrow> string list \<Rightarrow> ('e, 'v) ConvEvaluator \<Rightarrow>
     error option \<times> ('e, 'v) ConvEvaluator" where
  "embedding_metrics lib hyp refs self =
     (case get_sent_embedding self hyp of
        Inl e \<Rightarrow> (Some e, self)
      | Inr hyp_emb \<Rightarrow>
     (case ref_embeddings self refs of
        Inl e \<Rightarrow> (Some e, self)
      | Inr ref_embs \<Rightarrow>
     (case GreedyMatch_compute lib hyp_emb ref_embs of
        Inl e \<Rightarrow> (Some e, self)
      | Inr greedy \<Rightarrow>
          let s1 = self\<lparr>gen_metrics := Metrics_add ''greedy'' greedy (gen_metrics self)\<rparr>
          in
     (case EmbeddingAverage_compute lib hyp_emb ref_embs of
        Inl e \<Rightarrow> (Some e, s1)
      | Inr average \<Rightarrow>
          let s2 = s1\<lparr>gen_metrics := Metrics_add ''average'' average (gen_metrics s1)\<rparr>
          in
     (case VectorExtrema_compute lib hyp_emb ref_embs of
        Inl e \<Rightarrow> (Some e, s2)
      | Inr extreme \<Rightarrow>
          (None, s2\<lparr>gen_metrics := Metrics_add ''extreme'' extreme (gen_metrics s2)\<rparr>))))))"

definition gen_evaluate ::
  "('e, 'v) conv_lib \<Rightarrow> string \<Rightarrow> string list \<Rightarrow> ('e, 'v) ConvEvaluator \<Rightarrow>
     error option \<times> ('e, 'v) ConvEvaluator" where
  "gen_evaluate lib hyp refs self =
     (if hyp = [] then (None, self)
      else
        (case F1Metric_compute lib hyp refs of
           Inl e \<Rightarrow> (Some e, self)
         | Inr f1 \<Rightarrow>
             (case gen_evaluate_loop lib hyp refs [1..<5]
                     (self\<lparr>gen_metrics := Metrics_add ''f1'' f1 (gen_metrics self)\<rparr>) of
                (Some e, s2) \<Rightarrow> (Some e, s2)
              | (None, s2) \<Rightarrow> embedding_metrics lib hyp refs (s2\<lparr>dist_cnt := dist_cnt s2 + 1\<rparr>))))"



text \<open>
  \<^verbatim>\<open>
  def reset_metrics(self):
      self.gen_metrics.clear()
      self.dist_cnt = 0
      self.dist_set.clear()
      self.optim_metrics.clear()
  \<close>
\<close>

definition reset_metrics :: "('e, 'v) ConvEvaluator \<Rightarrow> ('e, 'v) ConvEvaluator" where
  "reset_metrics self =
     self\<lparr>gen_metrics := Metrics_clear (gen_metrics self),
          dist_cnt := 0,
          dist_set := [],
          optim_metrics := Metrics_clear (optim_metrics self)\<rparr>"




section \<open>base_dataloader.py: truncate\<close>

text \<open>
  \<^verbatim>\<open>
  def truncate(vec, max_length, truncate_tail=True):
      if max_length is None:
          return vec
      if len(vec) <= max_length:
          return vec
      if truncate_tail:
          return vec[:max_length]
      else:
          return vec[-max_length:]
  \<close>
  \<open>max_length\<close> is a Python integer or \<open>None\<close>; in \<open>vec[-max_length:]\<close> the bound
  \<open>-0\<close> is \<open>0\<close>, the start of the list.
\<close>

definition truncate :: "'a list \<Rightarrow> int option \<Rightarrow> bool \<Rightarrow> 'a list" where
  "truncate vec max_length truncate_tail =
     (case max_length of
        None \<Rightarrow> vec
      | Some m \<Rightarrow>
          if int (length vec) \<le> m then vec
          else if truncate_tail then py_slice vec None (Some m)
          else py_slice vec (Some (- m)) None)"

section \<open>base_dataloader.py: batch_split\<close>

text \<open>
  A generator is modelled by what a consumer sees when it runs it to its end: the
  values yielded, in order, and how it stops, \<open>None\<close> for exhaustion
  (\<open>StopIteration\<close>) and \<open>Some e\<close> for the exception \<open>e\<close> raised after the last
  value.
\<close>

type_synonym 'a generator = "'a list \<times> error option"

text \<open>
  \<open>len(dataset) / batch_size\<close> is Python's true division of two integers: the exact
  quotient rounded to the nearest double, ties to the even mantissa. A double has a
  mantissa of 53 bits; its exponent is at least \<open>-1022\<close>, below which the spacing of
  the subnormal numbers, \<open>2 ^ -1074\<close>, stays, so that a small quotient is rounded to
  zero; a result of \<open>2 ^ 1024\<close> or more raises \<open>OverflowError\<close>. The doubles are kept
  as rational numbers.
\<close>

definition round_half_even :: "rat \<Rightarrow> int" where
  "round_half_even y =
     (let r = \<lfloor>y\<rfloor>; d = y - of_int r
      in if d < 1 / 2 then r else if 1 / 2 < d then r + 1 else if even r then r else r + 1)"

text \<open>The number of bits of a positive integer, Python's \<open>int.bit_length\<close>.\<close>

function bit_length :: "int \<Rightarrow> nat" where
  "bit_length n = (if n \<le> 0 then 0 else Suc (bit_length (n div 2)))"
  by pat_completeness auto
termination
  by (relation "measure nat") auto

declare bit_length.simps [simp del]

text \<open>
  The exponent of the double nearest to \<open>n / b\<close>, for positive \<open>n\<close> and \<open>b\<close>: the
  \<open>e\<close> with \<open>2 ^ e \<le> n / b < 2 ^ (e + 1)\<close>, found from the bit lengths, and \<open>-1022\<close>
  when that is smaller.
\<close>

definition double_exponent :: "int \<Rightarrow> int \<Rightarrow> int" where
  "double_exponent n b =
     (let d = int (bit_length n) - int (bit_length b);
          e = (if of_int b * (2::rat) powi d \<le> of_int n then d else d - 1)
      in max e (- 1022))"

text \<open>The double \<open>n / b\<close> for \<open>n \<ge> 0\<close> and \<open>b > 0\<close>, before the overflow check.\<close>

definition py_true_div :: "int \<Rightarrow> int \<Rightarrow> rat" where
  "py_true_div n b =
     (if n = 0 then 0
      else let ulp = 2 powi (double_exponent n b - 52)
           in of_int (round_half_even (of_int n / of_int b / ulp)) * ulp)"

text \<open>
  \<open>ceil(len(dataset) / batch_size)\<close>. A \<open>batch_size\<close> of 0 raises
  \<open>ZeroDivisionError\<close>; for a negative one the quotient is the negated double of
  \<open>len(dataset) / -batch_size\<close>.
\<close>

definition py_ceil_div :: "nat \<Rightarrow> int \<Rightarrow> error + int" where
  "py_ceil_div n b =
     (if b = 0 then Inl ZeroDivisionError
      else
        let q = py_true_div (int n) \<bar>b\<bar>
        in if 2 ^ 1024 \<le> q then Inl OverflowError
           else Inr (if 0 < b then \<lceil>q\<rceil> else - \<lfloor>q\<rfloor>))"

text \<open>
  The list comprehension \<open>[dataset[idx] for idx in batch_idx]\<close>; the indices are
  naturals, and one outside the dataset raises \<open>IndexError\<close>.
\<close>

fun gather :: "'a list \<Rightarrow> nat list \<Rightarrow> error + 'a list" where
  "gather dataset [] = Inr []"
| "gather dataset (idx # rest) =
     (if idx < length dataset then
        (case gather dataset rest of
           Inl e \<Rightarrow> Inl e
         | Inr xs \<Rightarrow> Inr (dataset ! idx # xs))
      else Inl IndexError)"

text \<open>The loop \<open>for start_idx in range(batch_num)\<close>, over the values of \<open>start_idx\<close>.\<close>

fun batch_loop :: "'a list \<Rightarrow> int \<Rightarrow> nat list \<Rightarrow> nat list \<Rightarrow> 'a list generator" where
  "batch_loop dataset batch_size idx_list [] = ([], None)"
| "batch_loop dataset batch_size idx_list (start_idx # rest) =
     (case gather dataset
             (py_slice idx_list (Some (int start_idx * batch_size))
                                (Some ((int start_idx + 1) * batch_size))) of
        Inl e \<Rightarrow> ([], Some e)
      | Inr batch \<Rightarrow>
          (case batch_loop dataset batch_size idx_list rest of
             (batches, ending) \<Rightarrow> (batch # batches, ending)))"

text \<open>
  \<^verbatim>\<open>
  def batch_split(dataset, batch_size, shuffle=False):
      batch_num = ceil(len(dataset) / batch_size)
      idx_list = list(range(len(dataset)))
      if shuffle:
          random.shuffle(idx_list)
      for start_idx in range(batch_num):
          batch_idx = idx_list[start_idx * batch_size: (start_idx + 1) * batch_size]
          yield [dataset[idx] for idx in batch_idx]
  \<close>
  \<open>random.shuffle\<close> is the parameter \<open>rnd\<close>: the list it leaves in place of its
  argument. An exception of the first line is raised when the first batch is
  requested; a \<open>batch_num\<close> of at most 0 gives no batch.
\<close>

definition batch_split ::
  "(nat list \<Rightarrow> nat list) \<Rightarrow> 'a list \<Rightarrow> int \<Rightarrow> bool \<Rightarrow> 'a list generator" where
  "batch_split rnd dataset batch_size shuffle =
     (case py_ceil_div (length dataset) batch_size of
        Inl e \<Rightarrow> ([], Some e)
      | Inr batch_num \<Rightarrow>
          let idx_list = [0..<length dataset];
              idx_list = (if shuffle then rnd idx_list else idx_list)
          in batch_loop dataset batch_size idx_list [0..<nat batch_num])"

section \<open>base_dataloader.py: padded_tensor\<close>

text \<open>
  Token ids and \<open>pad_idx\<close> are Python integers. The elements of a
  \<open>torch.LongTensor\<close> are 64-bit signed integers: torch raises when it is given a
  Python integer outside their range, as an element or as a size. A tensor of shape
  \<open>(n, t)\<close> is a list of \<open>n\<close> rows of \<open>t\<close> elements.
\<close>

definition int64_ok :: "int \<Rightarrow> bool" where
  "int64_ok v \<longleftrightarrow> - (2 ^ 63) \<le> v \<and> v < 2 ^ 63"

text \<open>\<open>max(lens)\<close>: Python raises \<open>ValueError\<close> on an empty list.\<close>

fun py_max :: "nat list \<Rightarrow> error + nat" where
  "py_max [] = Inl ValueError"
| "py_max (x # xs) = Inr (fold max xs x)"

text \<open>
  The assignment \<open>row[start:stop] = src\<close> on a one-dimensional tensor. The bounds are
  clipped as Python's slices are; \<open>src\<close> must have as many elements as the slice, or
  one element, which is then broadcast; any other size raises \<open>RuntimeError\<close>.
\<close>

definition tensor_set_slice ::
  "'a list \<Rightarrow> int option \<Rightarrow> int option \<Rightarrow> 'a list \<Rightarrow> error + 'a list" where
  "tensor_set_slice row start stop src =
     (let n = length row;
          s = (case start of None \<Rightarrow> 0 | Some i \<Rightarrow> slice_index n i);
          e = (case stop of None \<Rightarrow> n | Some j \<Rightarrow> slice_index n j);
          m = e - s
      in if length src = m then Inr (take s row @ src @ drop (s + m) row)
         else if length src = 1 then Inr (take s row @ replicate m (hd src) @ drop (s + m) row)
         else Inl RuntimeError)"

text \<open>
  The loop \<open>for i, (item, length) in enumerate(zip(items, lens))\<close> over the output
  tensor; \<open>i\<close> is always the index of a row of \<open>output\<close>. The conversion
  \<open>torch.tensor(item, dtype=torch.long)\<close> raises for an id outside int64.
\<close>

fun fill_rows ::
  "bool \<Rightarrow> int \<Rightarrow> (nat \<times> int list \<times> nat) list \<Rightarrow> int list list \<Rightarrow> error + int list list" where
  "fill_rows right_padded t [] output = Inr output"
| "fill_rows right_padded t ((i, item, len) # rest) output =
     (if len = 0 then fill_rows right_padded t rest output
      else if \<not> list_all int64_ok item then Inl Int64Overflow
      else
        (case (if right_padded
               then tensor_set_slice (output ! i) None (Some (int len)) item
               else tensor_set_slice (output ! i) (Some (t - int len)) None item) of
           Inl e \<Rightarrow> Inl e
         | Inr row \<Rightarrow> fill_rows right_padded t rest (output[i := row])))"

text \<open>
  \<^verbatim>\<open>
  def padded_tensor(items, pad_idx=0, right_padded=True, max_len=None):
      n = len(items)
      lens = [len(item) for item in items]
      t = max(lens) if max_len is None else max_len
      t = max(t, 1)
      if isinstance(items[0], torch.Tensor):
          output = items[0].new(n, t)
      else:
          output = torch.LongTensor(n, t)
      output.fill_(pad_idx)
      for i, (item, length) in enumerate(zip(items, lens)):
          if length == 0:
              continue
          if not isinstance(item, torch.Tensor):
              item = torch.tensor(item, dtype=torch.long)
          if right_padded:
              output[i, :length] = item
          else:
              output[i, t - length:] = item
      return output
  \<close>
  The items are lists of token ids, so the output is a fresh \<open>LongTensor\<close>. Its
  creation raises when the width \<open>t\<close> is outside int64 or when the \<open>n * t\<close> elements
  cannot be allocated: \<open>capacity\<close>, a parameter, is the number of elements that the
  allocator can supply. \<open>fill_\<close> raises for a \<open>pad_idx\<close> outside int64.
\<close>

definition padded_tensor ::
  "nat \<Rightarrow> int list list \<Rightarrow> int \<Rightarrow> bool \<Rightarrow> int option \<Rightarrow> error + int list list" where
  "padded_tensor capacity items pad_idx right_padded max_len =
     (let n = length items;
          lens = map length items
      in case (case max_len of
                 None \<Rightarrow> (case py_max lens of Inl e \<Rightarrow> Inl e | Inr l \<Rightarrow> Inr (int l))
               | Some m \<Rightarrow> Inr m) of
           Inl e \<Rightarrow> Inl e
         | Inr t0 \<Rightarrow>
             let t = max t0 1 in
             if items = [] then Inl IndexError
             else if \<not> int64_ok t then Inl Int64Overflow
             else if capacity < n * nat t then Inl OutOfMemory
             else if \<not> int64_ok pad_idx then Inl Int64Overflow
             else fill_rows right_padded t (zip [0..<n] (zip items lens))
                    (replicate n (replicate (nat t) pad_idx)))"

subsection \<open>The padded row of one item\<close>

text \<open>
  The row the claims describe for one item: its tokens, and \<open>pad_idx\<close> in the
  remaining positions, after them when right-padded and before them otherwise.
\<close>

definition padded_row :: "bool \<Rightarrow> nat \<Rightarrow> 'a \<Rightarrow> 'a list \<Rightarrow> 'a list" where
  "padded_row right_padded t pad item =
     (if right_padded then item @ replicate (t - length item) pad
      else replicate (t - length item) pad @ item)"

section \<open>base_dataloader.py: BaseDataLoader\<close>

text \<open>
  \<^verbatim>\<open>
  class BaseDataLoader(ABC):
      def __init__(self, opt, dataset):
          self.opt = opt
          self.dataset = dataset
  \<close>
\<close>

datatype ('o, 'a) BaseDataLoader =
  BaseDataLoader (opt: 'o) (dataset: "'a list")

text \<open>
  The hooks of the base class. Each \<open>*_process_fn\<close> returns \<open>self.dataset\<close>; each
  \<open>*_batchify\<close> raises \<open>NotImplementedError\<close> whatever its arguments, here the batch
  that \<open>get_data\<close> passes.
\<close>

definition conv_process_fn :: "('o, 'a) BaseDataLoader \<Rightarrow> 'a list" where
  "conv_process_fn self = dataset self"

definition conv_batchify :: "('o, 'a) BaseDataLoader \<Rightarrow> 'a list \<Rightarrow> error + 'b" where
  "conv_batchify self batch = Inl NotImplementedError"

definition rec_process_fn :: "('o, 'a) BaseDataLoader \<Rightarrow> 'a list" where
  "rec_process_fn self = dataset self"

definition rec_batchify :: "('o, 'a) BaseDataLoader \<Rightarrow> 'a list \<Rightarrow> error + 'b" where
  "rec_batchify self batch = Inl NotImplementedError"

definition guide_process_fn :: "('o, 'a) BaseDataLoader \<Rightarrow> 'a list" where
  "guide_process_fn self = dataset self"

definition guide_batchify :: "('o, 'a) BaseDataLoader \<Rightarrow> 'a list \<Rightarrow> error + 'b" where
  "guide_batchify self batch = Inl NotImplementedError"

text \<open>
  The loop \<open>for batch in batch_split(...): yield batch_fn(batch)\<close>: \<open>batch_fn\<close> is
  called on each batch as it arrives, an exception of \<open>batch_fn\<close> ends the
  generator, and so does the end of \<open>batch_split\<close>, with its exception if it has
  one.
\<close>

fun yield_each :: "('a list \<Rightarrow> error + 'b) \<Rightarrow> 'a list list \<Rightarrow> error option \<Rightarrow> 'b generator" where
  "yield_each batch_fn [] ending = ([], ending)"
| "yield_each batch_fn (batch # rest) ending =
     (case batch_fn batch of
        Inl e \<Rightarrow> ([], Some e)
      | Inr y \<Rightarrow>
          (case yield_each batch_fn rest ending of
             (ys, r) \<Rightarrow> (y # ys, r)))"

text \<open>
  \<^verbatim>\<open>
  def get_data(self, batch_fn, batch_size, shuffle=True, process_fn=None, *args, **kwargs):
      dataset = self.dataset
      if process_fn is not None:
          dataset = process_fn(*args, **kwargs)
      for batch in batch_split(dataset, batch_size, shuffle):
          yield batch_fn(batch)
  \<close>
  \<open>process_fn\<close> is a bound method called without arguments.
\<close>

definition get_data ::
  "(nat list \<Rightarrow> nat list) \<Rightarrow> ('o, 'a) BaseDataLoader \<Rightarrow> ('a list \<Rightarrow> error + 'b) \<Rightarrow> int \<Rightarrow> bool \<Rightarrow>
     (unit \<Rightarrow> 'a list) option \<Rightarrow> 'b generator" where
  "get_data rnd self batch_fn batch_size shuffle process_fn =
     (let ds = (case process_fn of None \<Rightarrow> dataset self | Some f \<Rightarrow> f ())
      in case batch_split rnd ds batch_size shuffle of
           (batches, ending) \<Rightarrow> yield_each batch_fn batches ending)"

definition get_conv_data ::
  "(nat list \<Rightarrow> nat list) \<Rightarrow> ('o, 'a) BaseDataLoader \<Rightarrow> int \<Rightarrow> bool \<Rightarrow> 'b generator" where
  "get_conv_data rnd self batch_size shuffle =
     get_data rnd self (conv_batchify self) batch_size shuffle (Some (\<lambda>_. conv_process_fn self))"

definition get_rec_data ::
  "(nat list \<Rightarrow> nat list) \<Rightarrow> ('o, 'a) BaseDataLoader \<Rightarrow> int \<Rightarrow> bool \<Rightarrow> 'b generator" where
  "get_rec_data rnd self batch_size shuffle =
     get_data rnd self (rec_batchify self) batch_size shuffle (Some (\<lambda>_. rec_process_fn self))"

definition get_guide_data ::
  "(nat list \<Rightarrow> nat list) \<Rightarrow> ('o, 'a) BaseDataLoader \<Rightarrow> int \<Rightarrow> bool \<Rightarrow> 'b generator" where
  "get_guide_data rnd self batch_size shuffle =
     get_data rnd self (guide_batchify self) batch_size shuffle (Some (\<lambda>_. guide_process_fn self))"

text \<open>
  Requesting the next value of a generator that has not run yet: its first value, or
  the exception it ends with, \<open>StopIteration\<close> when it is exhausted.
\<close>

fun py_next :: "'a generator \<Rightarrow> error + 'a" where
  "py_next (y # ys, ending) = Inr y"
| "py_next ([], Some e) = Inl e"
| "py_next ([], None) = Inl StopIteration"

chapter \<open>Verified properties\<close>

section \<open>truncate\<close>

lemma truncate_None: "truncate vec None tt = vec"
  by (simp add: truncate_def)

lemma truncate_short: "int (length vec) \<le> m \<Longrightarrow> truncate vec (Some m) tt = vec"
  by (simp add: truncate_def)

lemma truncate_head:
  "0 \<le> m \<Longrightarrow> m < int (length vec) \<Longrightarrow> truncate vec (Some m) True = take (nat m) vec"
  by (simp add: truncate_def py_slice_def slice_index_def)

lemma truncate_last:
  "0 < m \<Longrightarrow> m < int (length vec) \<Longrightarrow>
     truncate vec (Some m) False = drop (length vec - nat m) vec"
  by (auto simp add: truncate_def py_slice_def slice_index_def nat_diff_distrib nat_add_distrib)

lemma truncate_zero_last: "truncate vec (Some 0) False = vec"
  by (simp add: truncate_def py_slice_def slice_index_def)

text \<open>
  Claim C4. The claim says that a vector longer than \<open>max_length\<close> is cut to its last
  \<open>max_length\<close> elements when \<open>truncate_tail\<close> is false. At \<open>max_length = 0\<close> the
  code evaluates \<open>vec[-0:]\<close>, which is \<open>vec[0:]\<close>: the three-element vector comes back
  whole, where its last zero elements are the empty list. The sibling branch
  \<open>vec[:0]\<close> for \<open>truncate_tail = True\<close> does return the empty list.
\<close>

theorem truncate_zero_keeps_whole_vector:
  "truncate [1::int, 2, 3] (Some 0) False = [1, 2, 3] \<and>
   truncate [1::int, 2, 3] (Some 0) True = []"
  by (simp add: truncate_def py_slice_def slice_index_def)

text \<open>
  Claim C5, as stated for every \<open>max_length\<close>, fails at a negative one:
  \<open>vec[:-1]\<close> drops the last element, so each further call drops one more.
\<close>

theorem truncate_negative_not_idempotent:
  "truncate (truncate [1::int, 2, 3] (Some (- 1)) True) (Some (- 1)) True
     \<noteq> truncate [1::int, 2, 3] (Some (- 1)) True"
  by (simp add: truncate_def py_slice_def slice_index_def)

text \<open>
  Claim C5, amended. For every \<open>max_length\<close> that is \<open>None\<close> or at least 0,
  truncate is idempotent; and when \<open>max_length\<close> is at least 1, or is 0 with
  \<open>truncate_tail\<close> true, the result has at most \<open>max_length\<close> elements.
\<close>

theorem truncate_idempotent:
  "(\<forall>m. max_length = Some m \<longrightarrow> 0 \<le> m) \<Longrightarrow>
    truncate (truncate vec max_length tt) max_length tt = truncate vec max_length tt \<and>
    (\<forall>m. max_length = Some m \<and> (1 \<le> m \<or> tt) \<longrightarrow>
        int (length (truncate vec max_length tt)) \<le> m)"
proof (cases max_length)
  case None
  then show ?thesis by (simp add: truncate_None)
next
  case (Some m)
  assume "\<forall>m. max_length = Some m \<longrightarrow> 0 \<le> m"
  with Some have m0: "0 \<le> m" by simp
  show ?thesis
  proof (cases "int (length vec) \<le> m")
    case True
    with Some show ?thesis by (simp add: truncate_short)
  next
    case long: False
    show ?thesis
    proof (cases tt)
      case True
      with long m0 Some show ?thesis by (simp add: truncate_head truncate_short)
    next
      case False
      show ?thesis
      proof (cases "m = 0")
        case True
        with False Some show ?thesis by (simp add: truncate_zero_last)
      next
        case mpos: False
        with m0 have "0 < m" by simp
        with long False Some show ?thesis by (simp add: truncate_last truncate_short)
      qed
    qed
  qed
qed

theorem truncate_idempotent_witness:
  "truncate (truncate [1::int, 2, 3] (Some 2) False) (Some 2) False
     = truncate [1::int, 2, 3] (Some 2) False \<and>
   truncate [1::int, 2, 3] (Some 2) False = [2, 3] \<and>
   int (length (truncate [1::int, 2, 3] (Some 2) False)) \<le> 2"
  using truncate_idempotent [of "Some 2" "[1::int, 2, 3]" False]
  by (simp add: truncate_def py_slice_def slice_index_def)

section \<open>batch_split\<close>

lemma gather_in_range:
  "\<forall>i\<in>set idxs. i < length data \<Longrightarrow> gather data idxs = Inr (map ((!) data) idxs)"
  by (induction idxs) simp_all

lemma slice_index_of_nat: "slice_index n (int k) = min k n"
  by (simp add: slice_index_def)

lemma py_slice_nat:
  "py_slice xs (Some (int i)) (Some (int j)) = take (min j (length xs) - min i (length xs)) (drop (min i (length xs)) xs)"
  by (simp add: py_slice_def slice_index_of_nat Let_def)

lemma slice_chunk:
  "py_slice xs (Some (int s * int b)) (Some ((int s + 1) * int b)) = take b (drop (s * b) xs)"
proof -
  have "py_slice xs (Some (int s * int b)) (Some ((int s + 1) * int b))
      = py_slice xs (Some (int (s * b))) (Some (int ((s + 1) * b)))"
    by (simp add: algebra_simps)
  also have "\<dots> = take b (drop (s * b) xs)"
    unfolding py_slice_nat by (cases "s * b < length xs") (auto simp: min_def not_le)
  finally show ?thesis .
qed

lemma batch_loop_in_range:
  "\<forall>i\<in>set idx_list. i < length data \<Longrightarrow>
   batch_loop data (int b) idx_list starts =
     (map (\<lambda>s. take b (drop (s * b) (map ((!) data) idx_list))) starts, None)"
proof (induction starts)
  case Nil
  then show ?case by simp
next
  case (Cons s starts)
  have "\<forall>i\<in>set (take b (drop (s * b) idx_list)). i < length data"
    using Cons.prems by (meson in_set_dropD in_set_takeD)
  then have "gather data (take b (drop (s * b) idx_list))
      = Inr (map ((!) data) (take b (drop (s * b) idx_list)))"
    by (rule gather_in_range)
  with Cons show ?case
    by (simp add: slice_chunk take_map drop_map)
qed

lemma concat_chunks:
  "concat (map (\<lambda>s. take b (drop (s * b) xs)) [0..<k]) = take (k * b) xs"
proof (induction k)
  case 0
  then show ?case by simp
next
  case (Suc k)
  have "take (Suc k * b) xs = take (k * b) xs @ take b (drop (k * b) xs)"
    by (simp add: take_add [symmetric] add.commute)
  with Suc show ?case by simp
qed

lemma round_half_even_near:
  "y - 1 / 2 \<le> of_int (round_half_even y)" "of_int (round_half_even y) \<le> y + 1 / 2"
  unfolding round_half_even_def Let_def by (auto; linarith)+

lemma round_half_even_le_int:
  assumes "y \<le> of_int m"
  shows "round_half_even y \<le> m"
proof -
  have "of_int (round_half_even y) < (of_int (m + 1) :: rat)"
    using round_half_even_near(2) [of y] assms by simp
  then have "round_half_even y < m + 1" by (simp only: of_int_less_iff)
  then show ?thesis by simp
qed

lemma round_half_even_nonneg:
  assumes "0 \<le> y"
  shows "0 \<le> round_half_even y"
proof -
  have "(of_int (- 1) :: rat) < of_int (round_half_even y)"
    using round_half_even_near(1) [of y] assms by simp
  then have "- 1 < round_half_even y" by (simp only: of_int_less_iff)
  then show ?thesis by simp
qed

lemma round_half_even_small:
  assumes "0 \<le> y" and "y < 1 / 2"
  shows "round_half_even y = 0"
proof -
  have "\<lfloor>y\<rfloor> = 0" using assms by (simp add: floor_eq_iff)
  then show ?thesis using assms by (simp add: round_half_even_def)
qed

lemma bit_length_bounds:
  "0 < n \<Longrightarrow> 2 ^ (bit_length n - 1) \<le> n \<and> n < 2 ^ bit_length n"
proof (induction n rule: bit_length.induct)
  case (1 n)
  show ?case
  proof (cases "n = 1")
    case True
    then show ?thesis by (simp add: bit_length.simps [of 1] bit_length.simps [of 0])
  next
    case False
    with "1.prems" have h: "0 < n div 2" by simp
    have l: "bit_length n = Suc (bit_length (n div 2))"
      using "1.prems" by (simp add: bit_length.simps [of n])
    have p: "0 < bit_length (n div 2)"
      using h by (simp add: bit_length.simps [of "n div 2"])
    from "1.IH" h "1.prems"
    have ih: "2 ^ (bit_length (n div 2) - 1) \<le> n div 2" "n div 2 < 2 ^ bit_length (n div 2)"
      by simp_all
    have "2 * 2 ^ (bit_length (n div 2) - 1) \<le> n" using ih(1) by linarith
    moreover have "2 * (2::int) ^ (bit_length (n div 2) - 1) = 2 ^ bit_length (n div 2)"
      using p by (metis Suc_pred' power_Suc)
    moreover have "n < 2 * 2 ^ bit_length (n div 2)" using ih(2) by linarith
    ultimately show ?thesis by (simp add: l)
  qed
qed


lemma exponent_lower:
  assumes "0 < n" and "0 < b"
  shows "2 powi (int (bit_length n) - int (bit_length b) - 1) \<le> (of_int n / of_int b :: rat)"
proof -
  have n: "(2::int) ^ (bit_length n - 1) \<le> n" and b: "b < 2 ^ bit_length b"
    using bit_length_bounds assms by simp_all
  have pn: "0 < bit_length n" using assms(1) by (simp add: bit_length.simps [of n])
  have e: "(2::rat) powi (int (bit_length n) - int (bit_length b) - 1)
             = 2 ^ (bit_length n - 1) / 2 ^ bit_length b"
  proof -
    have "int (bit_length n) - int (bit_length b) - 1
            = int (bit_length n - 1) - int (bit_length b)"
      using pn by simp
    moreover have "(2::rat) powi (int (bit_length n - 1) - int (bit_length b))
            = 2 powi int (bit_length n - 1) / 2 powi int (bit_length b)"
      by (rule power_int_diff) simp
    ultimately show ?thesis by (simp only: power_int_of_nat)
  qed
  have "(2::rat) ^ (bit_length n - 1) \<le> of_int n"
    using n by (metis of_int_le_iff of_int_numeral of_int_power)
  moreover have "(of_int b :: rat) < 2 ^ bit_length b"
    using b by (metis of_int_less_iff of_int_numeral of_int_power)
  ultimately have "(2::rat) ^ (bit_length n - 1) / 2 ^ bit_length b \<le> of_int n / of_int b"
    using assms by (intro frac_le) simp_all
  then show ?thesis by (simp only: e)
qed

lemma double_exponent_cases:
  "double_exponent n b = max (int (bit_length n) - int (bit_length b)) (- 1022) \<and>
     of_int b * (2::rat) powi (int (bit_length n) - int (bit_length b)) \<le> of_int n \<or>
   double_exponent n b = max (int (bit_length n) - int (bit_length b) - 1) (- 1022)"
  by (simp add: double_exponent_def Let_def)

lemma double_exponent_le:
  assumes "0 < n" and "0 < b" and "2 powi (- 1022) \<le> (of_int n / of_int b :: rat)"
  shows "2 powi double_exponent n b \<le> (of_int n / of_int b :: rat)"
proof -
  let ?d = "int (bit_length n) - int (bit_length b)"
  have b: "0 < (of_int b :: rat)" using assms(2) by simp
  from double_exponent_cases [of n b] show ?thesis
  proof
    assume a: "double_exponent n b = max ?d (- 1022) \<and> of_int b * (2::rat) powi ?d \<le> of_int n"
    then have "(2::rat) powi ?d \<le> of_int n / of_int b"
      using b by (simp add: pos_le_divide_eq mult.commute)
    with a assms(3) show ?thesis by (simp add: max_def)
  next
    assume "double_exponent n b = max (?d - 1) (- 1022)"
    with exponent_lower [OF assms(1,2)] assms(3) show ?thesis by (simp add: max_def)
  qed
qed

lemma double_exponent_underflow:
  assumes "0 < n" and "0 < b" and "(of_int n / of_int b :: rat) < 2 powi (- 1022)"
  shows "double_exponent n b = - 1022"
proof -
  let ?d = "int (bit_length n) - int (bit_length b)"
  have "(2::rat) powi (?d - 1) < 2 powi (- 1022)"
    using exponent_lower [OF assms(1,2)] assms(3) by (rule le_less_trans)
  then have "?d - 1 < - 1022"
    by (metis not_le power_int_increasing one_le_numeral)
  then show ?thesis
    using double_exponent_cases [of n b] by (auto simp: max_def)
qed


lemma int_ceiling_bounds:
  assumes "0 < (b::int)"
  shows "n \<le> - ((- n) div b) * b" and "- ((- n) div b) * b < n + b"
proof -
  have e: "(- n) div b * b + (- n) mod b = - n" by simp
  have l: "0 \<le> (- n) mod b" and u: "(- n) mod b < b"
    using assms by simp_all
  have m: "- ((- n) div b) * b = - ((- n) div b * b)" by simp
  show "n \<le> - ((- n) div b) * b" using e l unfolding m by linarith
  show "- ((- n) div b) * b < n + b" using e u unfolding m by linarith
qed

lemma py_true_div_nonneg:
  assumes "0 \<le> n" and "0 < b"
  shows "0 \<le> py_true_div n b"
proof (cases "n = 0")
  case True
  then show ?thesis by (simp add: py_true_div_def)
next
  case False
  let ?u = "(2::rat) powi (double_exponent n b - 52)"
  have "0 \<le> of_int n / of_int b / ?u" using assms by simp
  then have "0 \<le> round_half_even (of_int n / of_int b / ?u)"
    by (rule round_half_even_nonneg)
  then show ?thesis using False by (simp add: py_true_div_def Let_def)
qed

lemma py_true_div_exact:
  assumes "0 < n" and "n < 2 ^ 53" and "0 < b" and "b \<le> 2 ^ 1022"
  shows "of_int (- ((- n) div b) - 1) < py_true_div n b"
    and "py_true_div n b \<le> of_int (- ((- n) div b))"
proof -
  define q :: rat where "q = of_int n / of_int b"
  define e where "e = double_exponent n b"
  define u :: rat where "u = 2 powi (e - 52)"
  define j where "j = nat (52 - e)"
  define k where "k = - ((- n) div b)"
  define r where "r = round_half_even (q / u)"
  have fl: "py_true_div n b = of_int r * u"
    using assms(1) by (simp add: py_true_div_def Let_def r_def u_def e_def q_def)
  have bpos: "0 < (of_int b :: rat)" and npos: "0 < (of_int n :: rat)"
    using assms by simp_all
  have upos: "0 < u" by (simp add: u_def)
  have qpos: "0 < q" using bpos npos by (simp add: q_def)
  have "(of_int b :: rat) \<le> of_int (2 ^ 1022)" using assms(4) by (simp only: of_int_le_iff)
  then have b_le: "(of_int b :: rat) \<le> 2 ^ 1022" by simp
  have "(2::rat) powi (- 1022) = 1 / 2 ^ 1022"
    by (simp add: power_int_minus field_simps)
  also have "\<dots> \<le> 1 / of_int b" using b_le bpos by (intro divide_left_mono) simp_all
  also have "\<dots> \<le> q"
  proof -
    have "(1::rat) \<le> of_int n" using assms(1) by (metis of_int_1 of_int_le_iff zless_imp_add1_zle add_0)
    then show ?thesis using bpos by (simp add: q_def divide_right_mono)
  qed
  finally have normal: "2 powi (- 1022) \<le> q" .
  have e_le: "2 powi e \<le> q"
    unfolding e_def q_def using normal
    by (intro double_exponent_le assms(1,3)) (simp only: q_def)
  have "(of_int n :: rat) < of_int (2 ^ 53)" using assms(2) by (simp only: of_int_less_iff)
  then have n_lt: "(of_int n :: rat) < 2 ^ 53" by simp
  have "(1::rat) \<le> of_int b" using assms(3) by (metis of_int_1 of_int_le_iff zless_imp_add1_zle add_0)
  then have "q \<le> of_int n" using npos by (simp add: q_def field_simps)
  with e_le n_lt have "(2::rat) powi e < 2 powi 53" by simp
  then have "e < 53" by (metis not_le power_int_increasing one_le_numeral)
  then have je: "int j = 52 - e" by (simp add: j_def)
  have uj: "u * 2 ^ j = 1"
  proof -
    have "u * 2 ^ j = 2 powi (e - 52) * 2 powi (int j)" by (simp add: u_def)
    also have "\<dots> = 2 powi (e - 52 + int j)" by (rule power_int_add [symmetric]) simp
    also have "\<dots> = 1" by (simp add: je)
    finally show ?thesis .
  qed
  have u52: "u * 2 ^ 52 = 2 powi e"
  proof -
    have "u * 2 ^ 52 = 2 powi (e - 52) * 2 powi 52" by (simp add: u_def)
    also have "\<dots> = 2 powi (e - 52 + 52)" by (rule power_int_add [symmetric]) simp
    finally show ?thesis by simp
  qed
  have kb: "n \<le> k * b" "k * b < n + b"
    unfolding k_def using int_ceiling_bounds [OF assms(3)] by simp_all
  have "of_int n \<le> (of_int (k * b) :: rat)" using kb(1) by (simp only: of_int_le_iff)
  then have "q \<le> of_int k" using bpos by (simp add: q_def pos_divide_le_eq)
  then have "q * 2 ^ j \<le> of_int k * 2 ^ j" by simp
  moreover have qu: "q / u = q * 2 ^ j" using uj upos by (simp add: field_simps)
  ultimately have "q / u \<le> of_int (k * 2 ^ j)" by simp
  then have "r \<le> k * 2 ^ j" unfolding r_def by (rule round_half_even_le_int)
  then have "(of_int r :: rat) \<le> of_int (k * 2 ^ j)" by (simp only: of_int_le_iff)
  then have "of_int r * u \<le> of_int (k * 2 ^ j) * u" using upos by simp
  also have "\<dots> = of_int k * (u * 2 ^ j)" by simp
  finally show "py_true_div n b \<le> of_int (- ((- n) div b))"
    by (simp add: fl uj k_def)
  have "q / u - 1 / 2 \<le> of_int r" unfolding r_def by (rule round_half_even_near)
  then have "(q / u - 1 / 2) * u \<le> of_int r * u" using upos by simp
  moreover have "(q / u - 1 / 2) * u = q / u * u - u / 2" by (simp add: algebra_simps)
  moreover have "q / u * u = q" using upos by simp
  ultimately have low: "q - u / 2 \<le> of_int r * u" by simp
  have "u * 2 ^ 52 \<le> q" using e_le by (simp only: u52)
  then have "u \<le> q / 2 ^ 52" by (simp add: field_simps)
  then have "u / 2 \<le> q / 2 ^ 53" by simp
  also have "\<dots> < 1 / of_int b"
  proof -
    have "q / 2 ^ 53 = (of_int n / 2 ^ 53) / of_int b" by (simp add: q_def)
    also have "\<dots> < 1 / of_int b"
      using n_lt bpos by (intro divide_strict_right_mono) simp_all
    finally show ?thesis .
  qed
  finally have half: "u / 2 < 1 / of_int b" .
  have "(k - 1) * b + 1 \<le> n" using kb(2) by (simp add: algebra_simps)
  then have "(of_int ((k - 1) * b + 1) :: rat) \<le> of_int n" by (simp only: of_int_le_iff)
  then have "of_int (k - 1) * of_int b + 1 \<le> (of_int n :: rat)" by simp
  then have "(of_int (k - 1) * of_int b + 1) / of_int b \<le> (of_int n :: rat) / of_int b"
    using bpos by (intro divide_right_mono) simp_all
  moreover have "(of_int (k - 1) * of_int b + 1) / of_int b
                   = (of_int (k - 1) :: rat) + 1 / of_int b"
    using bpos by (simp add: add_divide_distrib)
  ultimately have "of_int (k - 1) + 1 / of_int b \<le> q"
    by (simp only: q_def)
  with half low have "of_int (k - 1) < of_int r * u" by linarith
  then show "of_int (- ((- n) div b) - 1) < py_true_div n b"
    by (simp add: fl k_def)
qed

lemma py_true_div_underflow:
  assumes "0 < n" and "0 < b" and "n * 2 ^ 1075 < b"
  shows "py_true_div n b = 0"
proof -
  define q :: rat where "q = of_int n / of_int b"
  have bpos: "0 < (of_int b :: rat)" and npos: "0 < (of_int n :: rat)"
    using assms by simp_all
  have "(of_int (n * 2 ^ 1075) :: rat) < of_int b" using assms(3) by (simp only: of_int_less_iff)
  then have small: "q * 2 ^ 1075 < 1"
    using bpos by (simp add: q_def field_simps)
  have qpos: "0 \<le> q" using npos bpos by (simp add: q_def)
  have "(2::rat) ^ 1022 \<le> 2 ^ 1075" by (rule power_increasing) simp_all
  then have "q * 2 ^ 1022 \<le> q * 2 ^ 1075" using qpos by (rule mult_left_mono)
  with small have "q * 2 ^ 1022 < 1" by linarith
  then have "q < 1 / 2 ^ 1022" by (simp add: field_simps)
  also have "\<dots> = (2::rat) powi (- 1022)" by (simp add: power_int_minus field_simps)
  finally have "double_exponent n b = - 1022"
    unfolding q_def by (rule double_exponent_underflow [OF assms(1,2)])
  then have u: "(2::rat) powi (double_exponent n b - 52) = 1 / 2 ^ 1074"
    by (simp add: power_int_minus field_simps)
  have "q / (1 / 2 ^ 1074) = q * 2 ^ 1074" by simp
  moreover have "q * 2 ^ 1074 < 1 / 2" using small by simp
  moreover have "0 \<le> q * 2 ^ 1074" using npos bpos by (simp add: q_def)
  ultimately have "round_half_even (q / (1 / 2 ^ 1074)) = 0"
    by (simp only: round_half_even_small)
  then show ?thesis
    by (simp add: py_true_div_def Let_def u q_def del: divide_divide_eq_left)
qed

lemma ceiling_nonneg:
  assumes "0 < (b::int)" and "0 \<le> n"
  shows "0 \<le> - ((- n) div b)"
proof -
  define k where "k = - ((- n) div b)"
  have "0 \<le> k * b"
    unfolding k_def using int_ceiling_bounds(1) [OF assms(1), of n] assms(2) by linarith
  with assms(1) have "0 \<le> k" by (simp add: zero_le_mult_iff)
  then show ?thesis by (simp only: k_def)
qed

lemma ceiling_le_self:
  assumes "0 < (b::int)" and "0 \<le> n"
  shows "- ((- n) div b) \<le> n"
proof (rule ccontr)
  assume "\<not> - ((- n) div b) \<le> n"
  then have "(n + 1) * b \<le> - ((- n) div b) * b"
    using assms(1) by (intro mult_right_mono) simp_all
  moreover have "n + b \<le> (n + 1) * b"
  proof -
    have "n * 1 \<le> n * b" using assms by (intro mult_left_mono) simp_all
    then show ?thesis by (simp add: algebra_simps)
  qed
  ultimately show False
    using int_ceiling_bounds(2) [OF assms(1), of n] by linarith
qed

lemma ceiling_is_ceiling: "- ((- int n) div b) = \<lceil>real n / real_of_int b\<rceil>"
  using ceiling_divide_eq_div [of "int n" b, where ?'a = real] by simp

lemma py_true_div_small:
  assumes "0 \<le> n" and "n < 2 ^ 53" and "0 < b" and "b \<le> 2 ^ 1022"
  shows "\<lceil>py_true_div n b\<rceil> = - ((- n) div b)" and "py_true_div n b \<le> of_int n"
proof -
  have "\<lceil>py_true_div n b\<rceil> = - ((- n) div b) \<and> py_true_div n b \<le> of_int n"
  proof (cases "n = 0")
    case True
    then show ?thesis by (simp add: py_true_div_def)
  next
    case False
    with assms(1) have pos: "0 < n" by simp
    note b = py_true_div_exact [OF pos assms(2-4)]
    have "\<lceil>py_true_div n b\<rceil> = - ((- n) div b)"
      using b by (intro ceiling_unique) simp_all
    moreover have "(of_int (- ((- n) div b)) :: rat) \<le> of_int n"
      using ceiling_le_self [OF assms(3,1)] by (simp only: of_int_le_iff)
    ultimately show ?thesis using b(2) by simp
  qed
  then show "\<lceil>py_true_div n b\<rceil> = - ((- n) div b)" and "py_true_div n b \<le> of_int n"
    by simp_all
qed

lemma py_true_div_no_overflow:
  assumes "0 \<le> n" and "n < 2 ^ 53" and "0 < b" and "b \<le> 2 ^ 1022"
  shows "\<not> 2 ^ 1024 \<le> py_true_div n b"
proof -
  have "(of_int n :: rat) < of_int (2 ^ 53)" using assms(2) by (simp only: of_int_less_iff)
  then have "(of_int n :: rat) < 2 ^ 53" by simp
  moreover have "(2::rat) ^ 53 \<le> 2 ^ 1024" by (rule power_increasing) simp_all
  ultimately show ?thesis
    using py_true_div_small(2) [OF assms] by linarith
qed

lemma py_ceil_div_exact:
  assumes "n < 2 ^ 53" and "0 < b" and "int b \<le> 2 ^ 1022"
  shows "py_ceil_div n (int b) = Inr (- ((- int n) div int b))"
proof -
  have n: "0 \<le> int n" "int n < 2 ^ 53" using assms(1) by simp_all
  have b: "0 < int b" using assms(2) by simp
  show ?thesis
    using py_true_div_small(1) [OF n b assms(3)] py_true_div_no_overflow [OF n b assms(3)] b
    by (simp add: py_ceil_div_def Let_def)
qed

lemma py_ceil_div_negative:
  assumes "n < 2 ^ 53" and "b < 0" and "- b \<le> 2 ^ 1022"
  shows "\<exists>batch_num. py_ceil_div n b = Inr batch_num \<and> batch_num \<le> 0"
proof -
  have n: "0 \<le> int n" "int n < 2 ^ 53" using assms(1) by simp_all
  have b: "0 < - b" using assms(2) by simp
  have "0 \<le> py_true_div (int n) (- b)" by (rule py_true_div_nonneg [OF n(1) b])
  then have "0 \<le> \<lfloor>py_true_div (int n) (- b)\<rfloor>" by simp
  then show ?thesis
    using py_true_div_no_overflow [OF n b assms(3)] assms(2)
    by (simp add: py_ceil_div_def Let_def)
qed

lemma py_ceil_div_underflow:
  assumes "0 < n" and "int n * 2 ^ 1075 < b"
  shows "py_ceil_div n b = Inr 0"
proof -
  have b: "0 < b" using assms by (smt (verit) mult_nonneg_nonneg of_nat_0_le_iff zero_le_numeral zero_le_power)
  have "py_true_div (int n) b = 0"
    using assms(1) b assms(2) by (intro py_true_div_underflow) simp_all
  then show ?thesis using b by (simp add: py_ceil_div_def)
qed

lemma batch_num_bounds:
  assumes "0 < b"
  shows "n \<le> nat (- ((- int n) div int b)) * b"
    and "nat (- ((- int n) div int b)) * b < n + b"
proof -
  let ?k = "- ((- int n) div int b)"
  have b: "0 < int b" using assms by simp
  have k0: "0 \<le> ?k" by (rule ceiling_nonneg [OF b]) simp
  then have i: "int (nat ?k * b) = ?k * int b" by simp
  have "int n \<le> int (nat ?k * b)" unfolding i by (rule int_ceiling_bounds(1) [OF b])
  then show "n \<le> nat ?k * b" by linarith
  have "int (nat ?k * b) < int n + int b" unfolding i by (rule int_ceiling_bounds(2) [OF b])
  then show "nat ?k * b < n + b" by linarith
qed


lemma chunk_length:
  assumes "0 < b" and "i < k" and "k * b < n + b" and "length xs = n"
  shows "1 \<le> length (take b (drop (i * b) xs))"
    and "length (take b (drop (i * b) xs)) \<le> b"
    and "i + 1 < k \<Longrightarrow> length (take b (drop (i * b) xs)) = b"
proof -
  have "Suc i * b \<le> k * b" using assms(2) by (intro mult_le_mono1) simp
  then have lt: "i * b + b < n + b" using assms(3) by simp
  then show "1 \<le> length (take b (drop (i * b) xs))" using assms(1,4) by simp
  show "length (take b (drop (i * b) xs)) \<le> b" by simp
  assume "i + 1 < k"
  then have "Suc (Suc i) * b \<le> k * b" by (intro mult_le_mono1) simp
  then have "i * b + b + b < n + b" using assms(3) by simp
  then show "length (take b (drop (i * b) xs)) = b" using assms(4) by simp
qed

lemma batch_split_run:
  assumes "0 < b"
    and "shuffle \<longrightarrow> mset (rnd [0..<length data]) = mset [0..<length data]"
    and "length data < 2 ^ 53"
    and "int b \<le> 2 ^ 1022"
  shows "batch_split rnd data (int b) shuffle =
     (map (\<lambda>s. take b (drop (s * b)
              (map ((!) data) (if shuffle then rnd [0..<length data] else [0..<length data]))))
        [0..<nat (- ((- int (length data)) div int b))], None)"
proof -
  define idx where "idx = (if shuffle then rnd [0..<length data] else [0..<length data])"
  have "mset idx = mset [0..<length data]"
    using assms(2) by (simp add: idx_def)
  then have "set idx = {0..<length data}" by (metis mset_eq_setD set_upt)
  then have in_range: "\<forall>i\<in>set idx. i < length data" by simp
  have "batch_split rnd data (int b) shuffle
      = batch_loop data (int b) idx [0..<nat (- ((- int (length data)) div int b))]"
    by (simp add: batch_split_def Let_def idx_def py_ceil_div_exact [OF assms(3,1,4)])
  also have "\<dots> = (map (\<lambda>s. take b (drop (s * b) (map ((!) data) idx)))
        [0..<nat (- ((- int (length data)) div int b))], None)"
    by (rule batch_loop_in_range [OF in_range])
  finally show ?thesis unfolding idx_def .
qed

lemma batch_split_first_batch:
  assumes "data \<noteq> []" and "1 \<le> batch_size"
    and "shuffle \<longrightarrow> mset (rnd [0..<length data]) = mset [0..<length data]"
    and "length data < 2 ^ 53"
    and "batch_size \<le> 2 ^ 1022"
  shows "\<exists>batch batches. batch_split rnd data batch_size shuffle = (batch # batches, None)"
proof -
  define b where "b = nat batch_size"
  have b: "batch_size = int b" "0 < b" using assms(2) by (simp_all add: b_def)
  have b_le: "int b \<le> 2 ^ 1022" using assms(5) by (simp only: b(1))
  define k where "k = nat (- ((- int (length data)) div int b))"
  have "length data \<le> k * b"
    unfolding k_def by (rule batch_num_bounds [OF b(2)])
  then have "0 < k" using assms(1) by (cases k) simp_all
  then have "[0..<k] = 0 # [1..<k]" by (simp add: upt_conv_Cons)
  then show ?thesis
    unfolding b(1)
      batch_split_run [where rnd = rnd and data = data, OF b(2) assms(3) assms(4) b_le]
      k_def [symmetric] by simp
qed

lemma batch_split_no_batch:
  assumes "py_ceil_div (length data) batch_size = Inr batch_num" and "batch_num \<le> 0"
  shows "batch_split rnd data batch_size shuffle = ([], None)"
  using assms by (simp add: batch_split_def)

lemma batch_split_zero: "batch_split rnd data 0 shuffle = ([], Some ZeroDivisionError)"
  by (simp add: batch_split_def py_ceil_div_def)

text \<open>
  Where the exact quotient is below half of the smallest double, the float quotient
  is \<open>0.0\<close> and no batch is produced, whatever the dataset holds.
\<close>

lemma batch_split_underflow:
  assumes "data \<noteq> []" and "int (length data) * 2 ^ 1075 < batch_size"
  shows "batch_split rnd data batch_size shuffle = ([], None)"
proof -
  have "py_ceil_div (length data) batch_size = Inr 0"
    using assms by (intro py_ceil_div_underflow) simp_all
  then show ?thesis by (rule batch_split_no_batch) simp
qed

lemma batch_split_underflow_example:
  "batch_split rnd [1::int, 2, 3] (10 ^ 400) False = ([], None)"
  by (rule batch_split_underflow) simp_all

text \<open>
  Claim C2, amended. For every dataset of fewer than \<open>2 ^ 53\<close> elements and every
  \<open>batch_size\<close> from 1 to \<open>2 ^ 1022\<close>, where the float quotient
  \<open>len(dataset) / batch_size\<close> has the ceiling of the exact one,
  batch_split ends without an exception after exactly
  \<open>ceil(len(dataset) / batch_size)\<close> batches; every batch is non-empty and has at most
  \<open>batch_size\<close> elements, and every batch but the last has exactly \<open>batch_size\<close>.
  With \<open>shuffle = False\<close> the concatenation of the batches is the dataset in its
  order; with \<open>shuffle = True\<close>, \<open>random.shuffle\<close> leaving a permutation of the index
  list, it is a permutation of the dataset.
\<close>

theorem batch_split_batches:
  assumes "1 \<le> batch_size"
    and "shuffle \<longrightarrow> mset (rnd [0..<length data]) = mset [0..<length data]"
    and "length data < 2 ^ 53"
    and "batch_size \<le> 2 ^ 1022"
  shows "\<exists>batches.
      batch_split rnd data batch_size shuffle = (batches, None) \<and>
      int (length batches) = \<lceil>real (length data) / real_of_int batch_size\<rceil> \<and>
      (\<forall>i<length batches.
          1 \<le> length (batches ! i) \<and> int (length (batches ! i)) \<le> batch_size \<and>
          (i + 1 < length batches \<longrightarrow> int (length (batches ! i)) = batch_size)) \<and>
      (if shuffle then mset (concat batches) = mset data else concat batches = data)"
proof -
  define b where "b = nat batch_size"
  define n where "n = length data"
  define idx where "idx = (if shuffle then rnd [0..<n] else [0..<n])"
  define k where "k = nat (- ((- int n) div int b))"
  define xs where "xs = map ((!) data) idx"
  define batches where "batches = map (\<lambda>s. take b (drop (s * b) xs)) [0..<k]"
  have b: "batch_size = int b" "0 < b" using assms(1) by (simp_all add: b_def)
  have b_le: "int b \<le> 2 ^ 1022" using assms(4) by (simp only: b(1))
  have perm: "mset idx = mset [0..<n]"
    using assms(2) by (simp add: idx_def n_def)
  have len_xs: "length xs = n"
    using perm by (metis xs_def length_map length_upt mset_eq_length diff_zero)
  have run: "batch_split rnd data batch_size shuffle = (batches, None)"
    unfolding b(1) batches_def xs_def idx_def k_def n_def
    by (rule batch_split_run [where rnd = rnd and data = data, OF b(2) assms(2,3) b_le])
  have kb: "n \<le> k * b" "k * b < n + b"
    unfolding k_def using batch_num_bounds [OF b(2), of n] by simp_all
  have "int k = - ((- int n) div int b)"
    unfolding k_def using ceiling_nonneg [of "int b" "int n"] b(2) by simp
  then have num: "int (length batches) = \<lceil>real (length data) / real_of_int batch_size\<rceil>"
    by (simp add: batches_def ceiling_is_ceiling n_def b(1))
  have sizes: "\<forall>i<length batches.
          1 \<le> length (batches ! i) \<and> int (length (batches ! i)) \<le> batch_size \<and>
          (i + 1 < length batches \<longrightarrow> int (length (batches ! i)) = batch_size)"
  proof (intro allI impI)
    fix i assume "i < length batches"
    then have ik: "i < k" by (simp add: batches_def)
    then have bi: "batches ! i = take b (drop (i * b) xs)" by (simp add: batches_def)
    have lk: "length batches = k" by (simp add: batches_def)
    show "1 \<le> length (batches ! i) \<and> int (length (batches ! i)) \<le> batch_size \<and>
          (i + 1 < length batches \<longrightarrow> int (length (batches ! i)) = batch_size)"
      unfolding bi lk b(1)
      using chunk_length [OF b(2) ik kb(2) len_xs] by simp
  qed
  have "concat batches = take (k * b) xs" by (simp add: batches_def concat_chunks)
  then have cat: "concat batches = xs" using kb(1) len_xs by simp
  have whole: "if shuffle then mset (concat batches) = mset data else concat batches = data"
  proof (cases shuffle)
    case True
    have "mset xs = image_mset ((!) data) (mset idx)" by (simp add: xs_def)
    also have "\<dots> = mset (map ((!) data) [0..<n])" by (simp add: perm)
    also have "\<dots> = mset data" by (simp add: n_def map_nth)
    finally show ?thesis using True cat by simp
  next
    case False
    then have "xs = map ((!) data) [0..<n]" by (simp add: xs_def idx_def)
    then show ?thesis using False cat by (simp add: n_def map_nth)
  qed
  from run num sizes whole show ?thesis by blast
qed

theorem batch_split_batches_witness:
  "batch_split rev [10::int, 20, 30] 2 True = ([[30, 20], [10]], None) \<and>
   (\<exists>batches.
      batch_split rev [10::int, 20, 30] 2 True = (batches, None) \<and>
      int (length batches) = \<lceil>real (length [10::int, 20, 30]) / real_of_int 2\<rceil> \<and>
      mset (concat batches) = mset [10::int, 20, 30])"
proof -
  have p: "True \<longrightarrow> mset (rev [0..<length [10::int, 20, 30]]) = mset [0..<length [10::int, 20, 30]]"
    by simp
  have l: "length [10::int, 20, 30] < 2 ^ 53" by simp
  have e: "batch_split rev [10::int, 20, 30] 2 True = ([[30, 20], [10]], None)"
    using batch_split_run [where rnd = rev and data = "[10::int, 20, 30]" and b = 2
        and shuffle = True]
    by (simp add: upt_rec)
  from batch_split_batches [of 2 True rev "[10::int, 20, 30]", OF _ p l] e
  show ?thesis by auto
qed

text \<open>
  Claim C2, as stated, fails where \<open>batch_size\<close> does not divide the length: three
  elements in batches of two leave a last batch of one element.
\<close>

theorem batch_split_last_batch_short:
  "batch_split (\<lambda>idx. idx) [10::int, 20, 30] 2 False = ([[10, 20], [30]], None) \<and>
   \<not> (\<forall>batch \<in> set (fst (batch_split (\<lambda>idx. idx) [10::int, 20, 30] 2 False)).
        int (length batch) = 2)"
  using batch_split_run [where rnd = "\<lambda>idx. idx" and data = "[10::int, 20, 30]" and b = 2
      and shuffle = False]
  by (simp add: upt_rec)

section \<open>padded_tensor\<close>

lemma padded_row_empty: "padded_row rp t pad [] = replicate t pad"
  by (simp add: padded_row_def)

lemma length_padded_row: "length item \<le> t \<Longrightarrow> length (padded_row rp t pad item) = t"
  by (simp add: padded_row_def)

lemma padded_row_nth:
  assumes "length item \<le> t" and "j < t"
  shows "padded_row rp t pad item ! j =
     (if rp then (if j < length item then item ! j else pad)
      else (if j < t - length item then pad else item ! (j - (t - length item))))"
  using assms by (auto simp: padded_row_def nth_append)

lemma set_slice_right:
  assumes "length item \<le> t"
  shows "tensor_set_slice (replicate t pad) None (Some (int (length item))) item
           = Inr (padded_row True t pad item)"
  using assms by (simp add: tensor_set_slice_def slice_index_def padded_row_def min_def)

lemma set_slice_left:
  assumes "length item \<le> t"
  shows "tensor_set_slice (replicate t pad) (Some (int t - int (length item))) None item
           = Inr (padded_row False t pad item)"
proof -
  have "slice_index t (int t - int (length item)) = t - length item"
    using assms by (simp add: slice_index_def nat_diff_distrib)
  then show ?thesis
    using assms by (simp add: tensor_set_slice_def padded_row_def)
qed

lemma fill_rows_fits:
  assumes "\<forall>item\<in>set its. length item \<le> t"
    and "\<forall>item\<in>set its. list_all int64_ok item"
  shows "fill_rows rp (int t)
           (zip [length done..<length done + length its] (zip its (map length its)))
           (done @ replicate (length its) (replicate t pad))
         = Inr (done @ map (padded_row rp t pad) its)"
  using assms
proof (induction its arbitrary: "done")
  case Nil
  then show ?case by simp
next
  case (Cons item its)
  let ?k = "length done"
  have fits: "length item \<le> t" and rest: "\<forall>item\<in>set its. length item \<le> t"
    using Cons.prems(1) by simp_all
  have ok: "list_all int64_ok item" and rest_ok: "\<forall>item\<in>set its. list_all int64_ok item"
    using Cons.prems(2) by simp_all
  define out where "out = done @ replicate (length (item # its)) (replicate t pad)"
  define todo where "todo x = zip [length (done @ [x])..<length (done @ [x]) + length its]
                                (zip its (map length its))" for x :: "int list"
  have z: "zip [?k..<?k + length (item # its)] (zip (item # its) (map length (item # its)))
         = (?k, item, length item) # todo x" for x
  proof -
    have "[?k..<?k + length (item # its)] = ?k # [Suc ?k..<Suc ?k + length its]"
      by (simp add: upt_conv_Cons del: upt_Suc)
    then show ?thesis by (simp add: todo_def)
  qed
  have o: "out ! ?k = replicate t pad"
    by (simp add: out_def nth_append)
  have u: "out[?k := row] = (done @ [row]) @ replicate (length its) (replicate t pad)" for row
    by (simp add: out_def list_update_append)
  have ih: "fill_rows rp (int t) (todo row)
              ((done @ [row]) @ replicate (length its) (replicate t pad))
          = Inr ((done @ [row]) @ map (padded_row rp t pad) its)" for row
    unfolding todo_def by (rule Cons.IH [OF rest rest_ok])
  have "fill_rows rp (int t) ((?k, item, length item) # todo (padded_row rp t pad item)) out
      = Inr ((done @ [padded_row rp t pad item]) @ map (padded_row rp t pad) its)"
  proof (cases "length item = 0")
    case True
    then have "padded_row rp t pad item = out ! ?k"
      by (simp add: o padded_row_empty)
    then have "out[?k := padded_row rp t pad item] = out"
      by (simp only: list_update_id)
    then show ?thesis using True ih [of "padded_row rp t pad item"] u by simp
  next
    case False
    then show ?thesis
      using ih [of "padded_row rp t pad item"] ok
      by (cases rp) (simp_all add: o u set_slice_right [OF fits] set_slice_left [OF fits])
  qed
  then show ?case unfolding z [symmetric] out_def by simp
qed


lemma slice_index_le: "slice_index n i \<le> n"
  by (simp add: slice_index_def nat_le_iff)

lemma set_slice_length:
  assumes "tensor_set_slice row start stop src = Inr row'"
  shows "length row' = length row"
proof -
  define s where "s = (case start of None \<Rightarrow> 0 | Some i \<Rightarrow> slice_index (length row) i)"
  define e where "e = (case stop of None \<Rightarrow> length row | Some j \<Rightarrow> slice_index (length row) j)"
  have "s \<le> length row" and "e \<le> length row"
    by (simp_all add: s_def e_def slice_index_le split: option.splits)
  then show ?thesis
    using assms unfolding tensor_set_slice_def Let_def s_def [symmetric] e_def [symmetric]
    by (auto split: if_splits)
qed

lemma set_slice_error:
  "tensor_set_slice row start stop src = Inl e \<Longrightarrow> e = RuntimeError"
  by (auto simp: tensor_set_slice_def Let_def split: if_splits)

lemma set_slice_right_too_long:
  assumes "1 \<le> length row" and "length row < length item"
  shows "tensor_set_slice row None (Some (int (length item))) item = Inl RuntimeError"
  using assms by (simp add: tensor_set_slice_def slice_index_def)

lemma set_slice_left_too_long:
  assumes "1 \<le> length row" and "length row < length item"
  shows "tensor_set_slice row (Some (int (length row) - int (length item))) None item
           = Inl RuntimeError"
proof -
  have "length row - slice_index (length row) (int (length row) - int (length item))
          < length item"
    using assms by (simp add: slice_index_def)
  then show ?thesis
    using assms by (simp add: tensor_set_slice_def)
qed

lemma fill_rows_too_long:
  assumes "1 \<le> t"
    and "\<forall>r\<in>set output. length r = t"
    and "\<forall>(i, item, len)\<in>set rows. i < length output \<and> len = length item"
    and "\<exists>(i, item, len)\<in>set rows. t < len"
  shows "\<exists>e. fill_rows rp (int t) rows output = Inl e \<and>
           ((\<forall>(i, item, len)\<in>set rows. list_all int64_ok item) \<longrightarrow> e = RuntimeError)"
  using assms(2-)
proof (induction rows arbitrary: "output")
  case Nil
  then show ?case by simp
next
  case (Cons r rows)
  obtain i item len where r: "r = (i, item, len)" by (cases r)
  have i: "i < length output" and len: "len = length item"
    using Cons.prems(2) by (simp_all add: r)
  have row: "length (output ! i) = t" using Cons.prems(1) i by simp
  have rest: "\<forall>(i, item, len)\<in>set rows. i < length out' \<and> len = length item"
    if "length out' = length output" for out' :: "int list list"
    using Cons.prems(2) that by auto
  let ?set = "if rp then tensor_set_slice (output ! i) None (Some (int len)) item
              else tensor_set_slice (output ! i) (Some (int t - int len)) None item"
  show ?case
  proof (cases "list_all int64_ok item \<or> len = 0")
    case False
    then show ?thesis by (auto simp: r)
  next
    case ok: True
    show ?thesis
    proof (cases "t < len")
      case True
      then have "?set = Inl RuntimeError"
        using set_slice_right_too_long [of "output ! i" item]
          set_slice_left_too_long [of "output ! i" item] assms(1)
        by (simp add: row len)
      then show ?thesis using True ok assms(1) by (simp add: r)
    next
      case False
      then have later: "\<exists>(i, item, len)\<in>set rows. t < len"
        using Cons.prems(3) by (auto simp: r)
      show ?thesis
      proof (cases "len = 0")
        case True
        then show ?thesis
          using Cons.IH [OF Cons.prems(1) rest later] by (auto simp: r)
      next
        case nonempty: False
        with ok have conv: "list_all int64_ok item" by simp
        show ?thesis
        proof (cases ?set)
          case (Inl e)
          then have "e = RuntimeError" by (auto dest: set_slice_error split: if_splits)
          with Inl nonempty conv show ?thesis by (simp add: r)
        next
          case (Inr row')
          then have "length row' = t"
            using row by (auto dest: set_slice_length split: if_splits)
          then have "\<forall>r\<in>set (output[i := row']). length r = t"
            using Cons.prems(1) by (auto dest: set_update_subset_insert [THEN subsetD])
          then have "\<exists>e. fill_rows rp (int t) rows (output[i := row']) = Inl e \<and>
             ((\<forall>(i, item, len)\<in>set rows. list_all int64_ok item) \<longrightarrow> e = RuntimeError)"
            using rest [of "output[i := row']"] later by (intro Cons.IH) simp_all
          with Inr nonempty conv show ?thesis by (auto simp: r)
        qed
      qed
    qed
  qed
qed


lemma py_max_nonempty:
  assumes "lens \<noteq> []"
  shows "py_max lens = Inr (Max (set lens))"
proof (cases lens)
  case Nil
  with assms show ?thesis by simp
next
  case (Cons x xs)
  then show ?thesis using Max.set_eq_fold [of x xs] by simp
qed

lemma length_le_width:
  assumes "item \<in> set items"
  shows "length item \<le> max (Max (set (map length items))) 1"
proof -
  have "length item \<le> Max (set (map length items))"
    using assms by (intro Max_ge) auto
  then show ?thesis by simp
qed

lemma fill_rows_all_fit:
  assumes "\<forall>item\<in>set items. length item \<le> t"
    and "\<forall>item\<in>set items. list_all int64_ok item"
  shows "fill_rows rp (int t) (zip [0..<length items] (zip items (map length items)))
           (replicate (length items) (replicate t pad))
         = Inr (map (padded_row rp t pad) items)"
  using fill_rows_fits [OF assms, of rp "[]" pad] by simp

text \<open>
  What padded_tensor does once the width \<open>t\<close> is known and \<open>items\<close> is not empty:
  the creation of the output, \<open>fill_\<close> and the loop.
\<close>

lemma padded_tensor_nonempty:
  assumes "items \<noteq> []"
    and "(case max_len of None \<Rightarrow> int (Max (set (map length items))) | Some m \<Rightarrow> m) = t0"
    and "max t0 1 = int t"
  shows "padded_tensor capacity items pad rp max_len =
     (if \<not> int64_ok (int t) then Inl Int64Overflow
      else if capacity < length items * t then Inl OutOfMemory
      else if \<not> int64_ok pad then Inl Int64Overflow
      else fill_rows rp (int t) (zip [0..<length items] (zip items (map length items)))
             (replicate (length items) (replicate t pad)))"
proof (cases max_len)
  case None
  then show ?thesis
    using assms by (simp add: padded_tensor_def Let_def py_max_nonempty)
next
  case (Some m)
  then show ?thesis
    using assms by (simp add: padded_tensor_def Let_def)
qed

lemma padded_tensor_fits:
  assumes "items \<noteq> []"
    and "\<forall>m. max_len = Some m \<longrightarrow> (\<forall>item\<in>set items. int (length item) \<le> max m 1)"
    and "t = (case max_len of None \<Rightarrow> max (Max (set (map length items))) 1
                            | Some m \<Rightarrow> nat (max m 1))"
    and "int64_ok pad"
    and "\<forall>item\<in>set items. list_all int64_ok item"
    and "int64_ok (int t)"
    and "length items * t \<le> capacity"
  shows "padded_tensor capacity items pad rp max_len = Inr (map (padded_row rp t pad) items)"
proof -
  define t0 where "t0 = (case max_len of None \<Rightarrow> int (Max (set (map length items))) | Some m \<Rightarrow> m)"
  have w: "max t0 1 = int t"
    using assms(3) by (cases max_len) (simp_all add: t0_def max_def)
  have fit: "\<forall>item\<in>set items. length item \<le> t"
  proof (cases max_len)
    case None
    show ?thesis
    proof
      fix item assume "item \<in> set items"
      from length_le_width [OF this] show "length item \<le> t"
        using assms(3) None by simp
    qed
  next
    case (Some m)
    then show ?thesis using assms(2,3) by (auto simp: max_def split: if_splits)
  qed
  show ?thesis
    using assms(4,6,7) fill_rows_all_fit [OF fit assms(5), of rp pad]
    by (simp add: padded_tensor_nonempty [OF assms(1) t0_def [symmetric] w])
qed

lemma padded_tensor_too_long:
  assumes "items \<noteq> []" and "\<exists>item\<in>set items. max m 1 < int (length item)"
  shows "\<exists>e. padded_tensor capacity items pad rp (Some m) = Inl e \<and>
           (int64_ok (max m 1) \<and> length items * nat (max m 1) \<le> capacity \<and> int64_ok pad \<and>
            (\<forall>item\<in>set items. list_all int64_ok item) \<longrightarrow> e = RuntimeError)"
proof -
  define t where "t = nat (max m 1)"
  have t: "max m 1 = int t" "1 \<le> t" unfolding t_def by linarith+
  let ?rows = "zip [0..<length items] (zip items (map length items))"
  have a: "\<forall>r\<in>set (replicate (length items) (replicate t pad)). length r = t" by simp
  have b: "\<forall>(i, item, len)\<in>set ?rows.
             i < length (replicate (length items) (replicate t pad)) \<and> len = length item"
    by (auto simp: set_zip)
  obtain item where item: "item \<in> set items" "t < length item"
    using assms(2) t(1) by auto
  then obtain i where i: "i < length items" "items ! i = item"
    by (auto simp: in_set_conv_nth)
  then have "(i, item, length item) \<in> set ?rows"
    unfolding set_zip by (intro CollectI exI [of _ i]) simp
  with item(2) have c: "\<exists>(i, item, len)\<in>set ?rows. t < len"
    by blast
  obtain e where e: "fill_rows rp (int t) ?rows (replicate (length items) (replicate t pad)) = Inl e"
    and e_kind: "(\<forall>(i, item, len)\<in>set ?rows. list_all int64_ok item) \<longrightarrow> e = RuntimeError"
    using fill_rows_too_long [OF t(2) a b c, of rp] by blast
  have all_ok: "\<forall>(i, item, len)\<in>set ?rows. list_all int64_ok item"
    if "\<forall>item\<in>set items. list_all int64_ok item"
    using that by (auto simp: set_zip)
  have run: "padded_tensor capacity items pad rp (Some m) =
     (if \<not> int64_ok (int t) then Inl Int64Overflow
      else if capacity < length items * t then Inl OutOfMemory
      else if \<not> int64_ok pad then Inl Int64Overflow
      else Inl e)"
    using padded_tensor_nonempty [OF assms(1), of "Some m" m t capacity pad rp] t(1) e
    by simp
  show ?thesis
    unfolding run t_def [symmetric] t(1) using e_kind all_ok by auto
qed

lemma padded_tensor_empty:
  "padded_tensor capacity [] pad rp max_len
     = Inl (if max_len = None then ValueError else IndexError)"
  by (cases max_len) (simp_all add: padded_tensor_def Let_def)

text \<open>
  Claim C1, amended. For every non-empty list of items whose token ids are within
  int64, every \<open>pad_idx\<close> within int64 and every \<open>max_len\<close> that is \<open>None\<close> or such that
  no item is longer than \<open>max(max_len, 1)\<close>, padded_tensor returns, when torch can
  create the tensor (its width within int64 and its elements within what the
  allocator supplies), a matrix of \<open>n\<close> rows, \<open>n\<close> the number of items, each of
  length \<open>t\<close>, where \<open>t\<close> is \<open>max(max item length, 1)\<close> when \<open>max_len\<close> is \<open>None\<close>
  and \<open>max(max_len, 1)\<close> otherwise. When right-padded, row \<open>i\<close> holds the tokens of
  item \<open>i\<close> in positions \<open>0 .. len - 1\<close> and \<open>pad_idx\<close> after them; otherwise it holds
  them in the last \<open>len\<close> positions and \<open>pad_idx\<close> before them.
\<close>

theorem padded_tensor_shape:
  assumes "items \<noteq> []"
    and "\<forall>m. max_len = Some m \<longrightarrow> (\<forall>item\<in>set items. int (length item) \<le> max m 1)"
    and "t = (case max_len of None \<Rightarrow> max (Max (set (map length items))) 1
                            | Some m \<Rightarrow> nat (max m 1))"
    and "int64_ok pad_idx"
    and "\<forall>item\<in>set items. list_all int64_ok item"
    and "int64_ok (int t)"
    and "length items * t \<le> capacity"
  shows "\<exists>out. padded_tensor capacity items pad_idx right_padded max_len = Inr out \<and>
           length out = length items \<and>
           (\<forall>i<length items. length (out ! i) = t \<and>
              (\<forall>j<t. out ! i ! j =
                 (if right_padded
                  then (if j < length (items ! i) then items ! i ! j else pad_idx)
                  else (if j < t - length (items ! i) then pad_idx
                        else items ! i ! (j - (t - length (items ! i)))))))"
proof -
  have fit: "length item \<le> t" if "item \<in> set items" for item
  proof (cases max_len)
    case None
    then show ?thesis using assms(3) length_le_width [OF that] by simp
  next
    case (Some m)
    then show ?thesis using assms(2,3) that by (auto simp: max_def split: if_splits)
  qed
  let ?out = "map (padded_row right_padded t pad_idx) items"
  have "padded_tensor capacity items pad_idx right_padded max_len = Inr ?out"
    by (rule padded_tensor_fits [OF assms])
  moreover have "length ?out = length items" by simp
  moreover have "\<forall>i<length items. length (?out ! i) = t \<and>
              (\<forall>j<t. ?out ! i ! j =
                 (if right_padded
                  then (if j < length (items ! i) then items ! i ! j else pad_idx)
                  else (if j < t - length (items ! i) then pad_idx
                        else items ! i ! (j - (t - length (items ! i))))))"
    using fit by (simp add: length_padded_row padded_row_nth)
  ultimately show ?thesis by blast
qed

theorem padded_tensor_shape_witness:
  "padded_tensor 1000 [[1, 2, 3], [4], []] 0 False None
     = Inr [[1, 2, 3], [0, 0, 4], [0, 0, 0]] \<and>
   (\<exists>out. padded_tensor 1000 [[1, 2, 3], [4], []] 0 False None = Inr out \<and>
      length out = 3 \<and> length (out ! 1) = 3 \<and>
      out ! 1 ! 0 = 0 \<and> out ! 1 ! 1 = 0 \<and> out ! 1 ! 2 = 4)"
proof -
  let ?items = "[[1, 2, 3], [4], []] :: int list list"
  have w: "(3::nat) = (case None :: int option of
                 None \<Rightarrow> max (Max (set (map length ?items))) 1
               | Some m \<Rightarrow> nat (max m 1))"
    by simp
  have ok: "int64_ok 0" "\<forall>item\<in>set ?items. list_all int64_ok item" "int64_ok (int 3)"
    by (simp_all add: int64_ok_def)
  have c: "length ?items * 3 \<le> 1000" by simp
  have e: "padded_tensor 1000 ?items 0 False None = Inr [[1, 2, 3], [0, 0, 4], [0, 0, 0]]"
    by (simp add: padded_tensor_def tensor_set_slice_def slice_index_def upt_rec
        eval_nat_numeral int64_ok_def)
  from padded_tensor_shape [of ?items None 3 0 1000 False, OF _ _ w ok c] e
  show ?thesis by (simp add: nth_Cons')
qed

text \<open>
  Claim C1, as stated for every \<open>max_len\<close>, fails when an item is longer than the
  width: the two tokens do not fit the slice of a row of width \<open>max(1, 1) = 1\<close>, and
  the assignment raises.
\<close>

theorem padded_tensor_short_max_len_raises:
  "padded_tensor 1000 [[1, 2]] 0 True (Some 1) = Inl RuntimeError"
  by (simp add: padded_tensor_def tensor_set_slice_def slice_index_def int64_ok_def)

text \<open>
  A \<open>pad_idx\<close> or a token id of \<open>2 ^ 63\<close> does not fit the tensor: \<open>fill_\<close>, or the
  conversion of the item, raises although the item fits the width.
\<close>

lemma padded_tensor_int64_overflow:
  "padded_tensor 1000 [[1]] (2 ^ 63) True None = Inl Int64Overflow"
  "padded_tensor 1000 [[2 ^ 63]] 0 True None = Inl Int64Overflow"
  "padded_tensor capacity [[1]] 0 True (Some (2 ^ 70)) = Inl Int64Overflow"
  by (simp_all add: padded_tensor_def int64_ok_def)

text \<open>
  Claim C10, amended. padded_tensor is total only under the precondition that \<open>items\<close>
  is non-empty and every item's length is at most the target width \<open>t\<close>, which is
  \<open>max(max_len, 1)\<close> when \<open>max_len\<close> is given (and \<open>max(maximum item length, 1)\<close>
  otherwise, which every item fits). For the empty list it fails, in \<open>max(lens)\<close> with
  \<open>ValueError\<close> when \<open>max_len\<close> is \<open>None\<close> and at \<open>items[0]\<close> with \<open>IndexError\<close> otherwise.
  When \<open>max_len\<close> is given and some item is longer than \<open>max(max_len, 1)\<close> the call
  fails, and it is the row assignment that fails, with \<open>RuntimeError\<close>, when torch
  could create the tensor and \<open>pad_idx\<close> and the ids are within int64: nothing is
  truncated.
\<close>

theorem padded_tensor_outcomes:
  "(items = [] \<longrightarrow>
      padded_tensor capacity items pad_idx right_padded max_len
        = Inl (if max_len = None then ValueError else IndexError)) \<and>
   (items \<noteq> [] \<and> (\<exists>item\<in>set items. max m 1 < int (length item)) \<longrightarrow>
      (\<exists>e. padded_tensor capacity items pad_idx right_padded (Some m) = Inl e \<and>
         (int64_ok (max m 1) \<and> length items * nat (max m 1) \<le> capacity \<and>
          int64_ok pad_idx \<and> (\<forall>item\<in>set items. list_all int64_ok item) \<longrightarrow>
            e = RuntimeError))) \<and>
   ((\<exists>out. padded_tensor capacity items pad_idx right_padded max_len = Inr out) \<longrightarrow>
      items \<noteq> [] \<and>
      (\<forall>m. max_len = Some m \<longrightarrow> (\<forall>item\<in>set items. int (length item) \<le> max m 1)))"
proof (intro conjI impI)
  assume "items = []"
  then show "padded_tensor capacity items pad_idx right_padded max_len
        = Inl (if max_len = None then ValueError else IndexError)"
    by (simp add: padded_tensor_empty)
next
  assume "items \<noteq> [] \<and> (\<exists>item\<in>set items. max m 1 < int (length item))"
  then show "\<exists>e. padded_tensor capacity items pad_idx right_padded (Some m) = Inl e \<and>
         (int64_ok (max m 1) \<and> length items * nat (max m 1) \<le> capacity \<and>
          int64_ok pad_idx \<and> (\<forall>item\<in>set items. list_all int64_ok item) \<longrightarrow>
            e = RuntimeError)"
    by (intro padded_tensor_too_long) simp_all
next
  assume ok: "\<exists>out. padded_tensor capacity items pad_idx right_padded max_len = Inr out"
  then show "items \<noteq> []" by (auto simp: padded_tensor_empty)
next
  assume ok: "\<exists>out. padded_tensor capacity items pad_idx right_padded max_len = Inr out"
  then have ne: "items \<noteq> []" by (auto simp: padded_tensor_empty)
  show "\<forall>m. max_len = Some m \<longrightarrow> (\<forall>item\<in>set items. int (length item) \<le> max m 1)"
  proof (intro allI impI, rule ccontr)
    fix m assume m: "max_len = Some m"
    assume "\<not> (\<forall>item\<in>set items. int (length item) \<le> max m 1)"
    then have "\<exists>item\<in>set items. max m 1 < int (length item)" by (simp add: not_le)
    then have "\<exists>e. padded_tensor capacity items pad_idx right_padded (Some m) = Inl e"
      using padded_tensor_too_long [OF ne, of m capacity pad_idx right_padded] by blast
    with ok m show False by auto
  qed
qed

theorem padded_tensor_outcomes_witness:
  "padded_tensor 1000 [] 7 True (Some 2) = Inl IndexError \<and>
   padded_tensor 1000 [[1, 2, 3], [4]] 0 False (Some 2) = Inl RuntimeError \<and>
   padded_tensor 1000 [[1, 2], [4]] 0 False (Some 2) = Inr [[1, 2], [0, 4]]"
proof -
  have a: "padded_tensor 1000 [] 7 True (Some 2) = Inl IndexError"
    using padded_tensor_outcomes [of "[]" 1000 7 True "Some 2" 0] by simp
  have b: "padded_tensor 1000 [[1, 2, 3], [4]] 0 False (Some 2) = Inl RuntimeError"
    using padded_tensor_outcomes [of "[[1, 2, 3], [4]]" 1000 0 False "Some 2" 2]
    by (auto simp: int64_ok_def)
  have c: "padded_tensor 1000 [[1, 2], [4]] 0 False (Some 2) = Inr [[1, 2], [0, 4]]"
    by (simp add: padded_tensor_def tensor_set_slice_def slice_index_def upt_rec
        eval_nat_numeral int64_ok_def)
  from a b c padded_tensor_outcomes [of "[[1, 2], [4]]" 1000 0 False "Some 2" 2]
  show ?thesis by simp
qed

text \<open>
  Claim C10, as stated, takes the width to be \<open>max_len\<close> and the empty list to fail
  at \<open>items[0]\<close>. With \<open>max_len = 0\<close> the width is \<open>max(0, 1) = 1\<close>, so an item of one
  token, longer than \<open>max_len\<close>, is accepted; and with \<open>max_len = None\<close> the empty list
  fails earlier, in \<open>max(lens)\<close>.
\<close>

theorem padded_tensor_max_len_zero_returns:
  "padded_tensor 1000 [[5]] 0 True (Some 0) = Inr [[5]] \<and>
   padded_tensor 1000 [] 0 True None = Inl ValueError"
  by (simp add: padded_tensor_def tensor_set_slice_def slice_index_def int64_ok_def)

section \<open>BaseDataLoader\<close>

lemma get_data_first_batch:
  assumes "batch_split rnd (dataset self) batch_size shuffle = (batch # batches, ending)"
    and "process_fn = None \<or> process_fn = Some (\<lambda>_. dataset self)"
  shows "py_next (get_data rnd self batch_fn batch_size shuffle process_fn)
           = batch_fn batch"
  using assms
  by (auto simp: get_data_def split: sum.splits prod.splits)

lemma get_data_not_implemented:
  assumes "dataset self \<noteq> []" and "1 \<le> batch_size"
    and "shuffle \<longrightarrow> mset (rnd [0..<length (dataset self)]) = mset [0..<length (dataset self)]"
    and "length (dataset self) < 2 ^ 53"
    and "batch_size \<le> 2 ^ 1022"
    and "\<And>batch. batch_fn batch = Inl NotImplementedError"
  shows "py_next (get_data rnd self batch_fn batch_size shuffle (Some (\<lambda>_. dataset self)))
           = Inl NotImplementedError"
proof -
  obtain batch batches
    where "batch_split rnd (dataset self) batch_size shuffle = (batch # batches, None)"
    using batch_split_first_batch [where rnd = rnd, OF assms(1-5)] by blast
  then show ?thesis
    using get_data_first_batch [of rnd self batch_size shuffle batch batches None _ batch_fn]
    by (simp add: assms(6))
qed

text \<open>
  Claim C7, amended. On a BaseDataLoader that does not override the batchify hooks,
  \<open>conv_batchify\<close>, \<open>rec_batchify\<close> and \<open>guide_batchify\<close> raise \<open>NotImplementedError\<close>;
  consequently, on a non-empty dataset of fewer than \<open>2 ^ 53\<close> elements and with a
  \<open>batch_size\<close> from 1 to \<open>2 ^ 1022\<close>, requesting the first batch from
  \<open>get_conv_data\<close>, \<open>get_rec_data\<close> or \<open>get_guide_data\<close> raises \<open>NotImplementedError\<close>
  (\<open>random.shuffle\<close> leaving a permutation of the index list).
\<close>

theorem batchify_not_implemented:
  "conv_batchify self batch = (Inl NotImplementedError :: error + 'r) \<and>
   rec_batchify self batch = (Inl NotImplementedError :: error + 'r) \<and>
   guide_batchify self batch = (Inl NotImplementedError :: error + 'r) \<and>
   (dataset self \<noteq> [] \<and> length (dataset self) < 2 ^ 53 \<and>
    1 \<le> batch_size \<and> batch_size \<le> 2 ^ 1022 \<and>
    (shuffle \<longrightarrow>
       mset (rnd [0..<length (dataset self)]) = mset [0..<length (dataset self)]) \<longrightarrow>
      py_next (get_conv_data rnd self batch_size shuffle)
        = (Inl NotImplementedError :: error + 'r) \<and>
      py_next (get_rec_data rnd self batch_size shuffle)
        = (Inl NotImplementedError :: error + 'r) \<and>
      py_next (get_guide_data rnd self batch_size shuffle)
        = (Inl NotImplementedError :: error + 'r))"
proof -
  have hooks: "conv_batchify self batch = (Inl NotImplementedError :: error + 'r)"
    "rec_batchify self batch = (Inl NotImplementedError :: error + 'r)"
    "guide_batchify self batch = (Inl NotImplementedError :: error + 'r)" for batch
    by (simp_all add: conv_batchify_def rec_batchify_def guide_batchify_def)
  have "py_next (get_conv_data rnd self batch_size shuffle)
        = (Inl NotImplementedError :: error + 'r) \<and>
      py_next (get_rec_data rnd self batch_size shuffle)
        = (Inl NotImplementedError :: error + 'r) \<and>
      py_next (get_guide_data rnd self batch_size shuffle)
        = (Inl NotImplementedError :: error + 'r)"
    if a: "dataset self \<noteq> []" "length (dataset self) < 2 ^ 53" "1 \<le> batch_size"
      "batch_size \<le> 2 ^ 1022"
      "shuffle \<longrightarrow>
         mset (rnd [0..<length (dataset self)]) = mset [0..<length (dataset self)]"
    unfolding get_conv_data_def get_rec_data_def get_guide_data_def
      conv_process_fn_def rec_process_fn_def guide_process_fn_def
    by (intro conjI get_data_not_implemented a hooks)
  with hooks show ?thesis by blast
qed

theorem batchify_not_implemented_witness:
  "conv_batchify (BaseDataLoader () [1::int, 2, 3]) [1, 2] = (Inl NotImplementedError :: error + unit) \<and>
   py_next (get_conv_data rev (BaseDataLoader () [1::int, 2, 3]) 2 True)
      = (Inl NotImplementedError :: error + unit) \<and>
   py_next (get_rec_data rev (BaseDataLoader () [1::int, 2, 3]) 2 True)
      = (Inl NotImplementedError :: error + unit) \<and>
   py_next (get_guide_data rev (BaseDataLoader () [1::int, 2, 3]) 2 True)
      = (Inl NotImplementedError :: error + unit)"
  using batchify_not_implemented
    [where ?'r = unit and self = "BaseDataLoader () [1::int, 2, 3]" and batch = "[1, 2]"
       and batch_size = 2 and shuffle = True and rnd = rev]
  by simp

text \<open>
  Claim C7, as stated for any \<open>batch_size\<close>, fails below 1: with \<open>batch_size = 0\<close> the
  first request raises \<open>ZeroDivisionError\<close> in \<open>batch_split\<close>, before any hook is
  called, and with a negative one the generator is exhausted at once.
\<close>

theorem first_batch_zero_batch_size:
  "py_next (get_conv_data (\<lambda>idx. idx) (BaseDataLoader () [1::int, 2, 3]) 0 True)
      = (Inl ZeroDivisionError :: error + unit) \<and>
   py_next (get_conv_data (\<lambda>idx. idx) (BaseDataLoader () [1::int, 2, 3]) (- 1) True)
      = (Inl StopIteration :: error + unit)"
proof -
  obtain batch_num where "py_ceil_div (length [1::int, 2, 3]) (- 1) = Inr batch_num"
    and "batch_num \<le> 0"
    using py_ceil_div_negative [of "length [1::int, 2, 3]" "- 1"] by auto
  then have "batch_split (\<lambda>idx. idx) [1::int, 2, 3] (- 1) True = ([], None)"
    by (rule batch_split_no_batch)
  then show ?thesis
    by (simp add: get_conv_data_def get_data_def conv_process_fn_def batch_split_zero)
qed

text \<open>
  With a \<open>batch_size\<close> beyond the range of the doubles the float quotient is \<open>0.0\<close>:
  no batch is produced and the hook is not reached either.
\<close>

lemma first_batch_underflow:
  "py_next (get_conv_data rnd (BaseDataLoader () [1::int, 2, 3]) (10 ^ 400) False)
      = (Inl StopIteration :: error + unit)"
  using batch_split_underflow_example [of rnd]
  by (simp add: get_conv_data_def get_data_def conv_process_fn_def)

section \<open>RecEvaluator\<close>

lemma str_nat_digits:
  "str_nat (Suc 0) = ''1''" "str_nat 2 = ''2''" "str_nat 3 = ''3''" "str_nat 4 = ''4''"
  "str_nat 10 = ''10''" "str_nat 50 = ''50''"
  by code_simp+

lemma rec_evaluate_k_metrics:
  "rec_metrics (rec_evaluate_k lib ranks label k self) =
     rec_metrics self @
       (if k \<le> length ranks
        then [(''hit@'' @ str_nat k, HitMetric_compute lib ranks label k),
              (''ndcg@'' @ str_nat k, NDCGMetric_compute lib ranks label k),
              (''mrr@'' @ str_nat k, MRRMetric_compute lib ranks label k)]
        else [])"
  by (simp add: rec_evaluate_k_def Metrics_add_def)

lemma rec_evaluate_k_optim:
  "RecEvaluator.optim_metrics (rec_evaluate_k lib ranks label k self)
     = RecEvaluator.optim_metrics self"
  by (simp add: rec_evaluate_k_def)

text \<open>
  Claim C3, amended. A call \<open>rec_evaluate(ranks, label)\<close> accumulates \<open>hit@k\<close>,
  \<open>ndcg@k\<close> and \<open>mrr@k\<close> into \<open>rec_metrics\<close>, in this order, for each \<open>k\<close> among 1, 10
  and 50 that is at most \<open>len(ranks)\<close>, and leaves \<open>optim_metrics\<close> as it is: the call
  adds nine metric values when \<open>len(ranks)\<close> is at least 50, six when it is between 10
  and 49, three when it is between 1 and 9, and none for empty \<open>ranks\<close>.
\<close>

theorem rec_evaluate_adds:
  "rec_metrics (rec_evaluate lib ranks label self) =
     rec_metrics self @
       (if 1 \<le> length ranks
        then [(''hit@1'', HitMetric_compute lib ranks label 1),
              (''ndcg@1'', NDCGMetric_compute lib ranks label 1),
              (''mrr@1'', MRRMetric_compute lib ranks label 1)]
        else []) @
       (if 10 \<le> length ranks
        then [(''hit@10'', HitMetric_compute lib ranks label 10),
              (''ndcg@10'', NDCGMetric_compute lib ranks label 10),
              (''mrr@10'', MRRMetric_compute lib ranks label 10)]
        else []) @
       (if 50 \<le> length ranks
        then [(''hit@50'', HitMetric_compute lib ranks label 50),
              (''ndcg@50'', NDCGMetric_compute lib ranks label 50),
              (''mrr@50'', MRRMetric_compute lib ranks label 50)]
        else []) \<and>
   RecEvaluator.optim_metrics (rec_evaluate lib ranks label self)
     = RecEvaluator.optim_metrics self \<and>
   length (rec_metrics (rec_evaluate lib ranks label self)) =
     length (rec_metrics self) +
       (if 50 \<le> length ranks then 9 else if 10 \<le> length ranks then 6
        else if 1 \<le> length ranks then 3 else 0)"
  by (simp add: rec_evaluate_def rec_evaluate_k_metrics rec_evaluate_k_optim str_nat_digits)

text \<open>
  Claim C3, as stated for every call, fails for fewer than 50 ranks: with five ranks
  only the three metrics at \<open>k = 1\<close> are added, not nine.
\<close>

theorem rec_evaluate_short_ranks:
  "map fst (rec_metrics (rec_evaluate
      \<lparr>HitMetric_compute = (\<lambda>ranks label k. 0::nat),
       NDCGMetric_compute = (\<lambda>ranks label k. 0),
       MRRMetric_compute = (\<lambda>ranks label k. 0)\<rparr>
      [7::nat, 3, 9, 4, 1] (3::nat) RecEvaluator_init))
     = [''hit@1'', ''ndcg@1'', ''mrr@1'']"
  by (simp add: rec_evaluate_def rec_evaluate_k_def Metrics_add_def Metrics_new_def
      RecEvaluator_init_def str_nat_digits)


section \<open>ConvEvaluator\<close>

lemma range_1_5: "[1..<5] = [1, 2, 3, 4]"
  by (simp add: upt_rec)

lemma gen_evaluate_k_fields:
  assumes "gen_evaluate_k lib hyp refs k self = Inr s"
  shows "dist_cnt s = dist_cnt self"
    and "ConvEvaluator.optim_metrics s = ConvEvaluator.optim_metrics self"
    and "ft s = ft self"
  using assms by (auto simp: gen_evaluate_k_def split: sum.splits)

lemma gen_evaluate_loop_fields:
  "dist_cnt (snd (gen_evaluate_loop lib hyp refs ks self)) = dist_cnt self"
  "ConvEvaluator.optim_metrics (snd (gen_evaluate_loop lib hyp refs ks self))
     = ConvEvaluator.optim_metrics self"
  "ft (snd (gen_evaluate_loop lib hyp refs ks self)) = ft self"
  by (induction ks arbitrary: self; simp add: gen_evaluate_k_fields split: sum.splits)+



lemma gen_evaluate_loop_returns:
  assumes "\<forall>k\<in>set ks. BleuMetric_compute lib hyp refs k = Inr (bleu k)"
  shows "fst (gen_evaluate_loop lib hyp refs ks self) = None \<and>
         gen_metrics (snd (gen_evaluate_loop lib hyp refs ks self)) =
           gen_metrics self @ map (\<lambda>k. (''bleu@'' @ str_nat k, bleu k)) ks"
  using assms
  by (induction ks arbitrary: self) (simp_all add: gen_evaluate_k_def Metrics_add_def)

lemma embedding_metrics_fields:
  "dist_cnt (snd (embedding_metrics lib hyp refs self)) = dist_cnt self"
  "dist_set (snd (embedding_metrics lib hyp refs self)) = dist_set self"
  "ConvEvaluator.optim_metrics (snd (embedding_metrics lib hyp refs self))
     = ConvEvaluator.optim_metrics self"
  "ft (snd (embedding_metrics lib hyp refs self)) = ft self"
  by (simp_all add: embedding_metrics_def Let_def split: sum.splits)

lemma embedding_metrics_added:
  "\<exists>more. gen_metrics (snd (embedding_metrics lib hyp refs self)) = gen_metrics self @ more \<and>
     map fst more = take (length more) [''greedy'', ''average'', ''extreme''] \<and>
     (fst (embedding_metrics lib hyp refs self) = None \<longleftrightarrow> length more = 3)"
proof (cases "get_sent_embedding self hyp")
  case (Inl e)
  then show ?thesis by (intro exI [of _ "[]"]) (simp add: embedding_metrics_def)
next
  case hyp_emb: (Inr hyp_emb)
  show ?thesis
  proof (cases "ref_embeddings self refs")
    case (Inl e)
    with hyp_emb show ?thesis by (intro exI [of _ "[]"]) (simp add: embedding_metrics_def)
  next
    case ref_embs: (Inr ref_embs)
    show ?thesis
    proof (cases "GreedyMatch_compute lib hyp_emb ref_embs")
      case (Inl e)
      with hyp_emb ref_embs show ?thesis
        by (intro exI [of _ "[]"]) (simp add: embedding_metrics_def)
    next
      case greedy: (Inr greedy)
      show ?thesis
      proof (cases "EmbeddingAverage_compute lib hyp_emb ref_embs")
        case (Inl e)
        with hyp_emb ref_embs greedy show ?thesis
          by (intro exI [of _ "[(''greedy'', greedy)]"])
             (simp add: embedding_metrics_def Metrics_add_def)
      next
        case average: (Inr average)
        show ?thesis
        proof (cases "VectorExtrema_compute lib hyp_emb ref_embs")
          case (Inl e)
          with hyp_emb ref_embs greedy average show ?thesis
            by (intro exI [of _ "[(''greedy'', greedy), (''average'', average)]"])
               (simp add: embedding_metrics_def Metrics_add_def)
        next
          case (Inr extreme)
          with hyp_emb ref_embs greedy average show ?thesis
            by (intro exI [of _ "[(''greedy'', greedy), (''average'', average),
                                  (''extreme'', extreme)]"])
               (simp add: embedding_metrics_def Metrics_add_def)
        qed
      qed
    qed
  qed
qed

lemma gen_evaluate_empty: "gen_evaluate lib [] refs self = (None, self)"
  by (simp add: gen_evaluate_def)

lemma gen_evaluate_f1_raises:
  "hyp \<noteq> [] \<Longrightarrow> F1Metric_compute lib hyp refs = Inl e \<Longrightarrow>
     gen_evaluate lib hyp refs self = (Some e, self)"
  by (simp add: gen_evaluate_def)

lemma gen_evaluate_ft: "ft (snd (gen_evaluate lib hyp refs self)) = ft self"
proof (cases "hyp = []")
  case True
  then show ?thesis by (simp add: gen_evaluate_empty)
next
  case False
  show ?thesis
  proof (cases "F1Metric_compute lib hyp refs")
    case (Inl e)
    with False show ?thesis by (simp add: gen_evaluate_f1_raises)
  next
    case (Inr f1)
    let ?s1 = "self\<lparr>gen_metrics := Metrics_add ''f1'' f1 (gen_metrics self)\<rparr>"
    obtain raised s2 where loop: "gen_evaluate_loop lib hyp refs [1..<5] ?s1 = (raised, s2)"
      by (cases "gen_evaluate_loop lib hyp refs [1..<5] ?s1")
    have "ft s2 = ft self"
      using gen_evaluate_loop_fields(3) [of lib hyp refs "[1..<5]" ?s1] loop by simp
    then show ?thesis
      using False Inr loop
      by (cases raised) (simp_all add: gen_evaluate_def embedding_metrics_fields)
  qed
qed


text \<open>
  Claim C6, amended. For an empty \<open>hyp\<close>, \<open>gen_evaluate\<close> returns and leaves the whole
  state unchanged. For a non-empty \<open>hyp\<close> for which \<open>F1Metric.compute\<close> and the four
  calls of \<open>BleuMetric.compute\<close> return, it adds \<open>f1\<close> and \<open>bleu@1\<close> to \<open>bleu@4\<close> to
  \<open>gen_metrics\<close> and increments \<open>dist_cnt\<close> by exactly 1; after these it adds the
  embedding metrics \<open>greedy\<close>, \<open>average\<close> and \<open>extreme\<close>, all three exactly when it
  returns and those computed before the exception when it raises. For a non-empty
  \<open>hyp\<close> for which \<open>F1Metric.compute\<close> raises, the call raises that exception and
  leaves the whole state unchanged.
\<close>

theorem gen_evaluate_accumulates:
  "(hyp = [] \<longrightarrow> gen_evaluate lib hyp refs self = (None, self)) \<and>
   (hyp \<noteq> [] \<and> F1Metric_compute lib hyp refs = Inr f1 \<and>
    BleuMetric_compute lib hyp refs 1 = Inr bleu1 \<and>
    BleuMetric_compute lib hyp refs 2 = Inr bleu2 \<and>
    BleuMetric_compute lib hyp refs 3 = Inr bleu3 \<and>
    BleuMetric_compute lib hyp refs 4 = Inr bleu4 \<longrightarrow>
      (\<exists>more.
         gen_metrics (snd (gen_evaluate lib hyp refs self)) =
           gen_metrics self @
             [(''f1'', f1), (''bleu@1'', bleu1), (''bleu@2'', bleu2), (''bleu@3'', bleu3),
              (''bleu@4'', bleu4)] @ more \<and>
         map fst more = take (length more) [''greedy'', ''average'', ''extreme''] \<and>
         (fst (gen_evaluate lib hyp refs self) = None \<longleftrightarrow> length more = 3)) \<and>
      dist_cnt (snd (gen_evaluate lib hyp refs self)) = dist_cnt self + 1) \<and>
   (hyp \<noteq> [] \<and> F1Metric_compute lib hyp refs = Inl e \<longrightarrow>
      gen_evaluate lib hyp refs self = (Some e, self))"
proof (intro conjI impI)
  assume "hyp = []"
  then show "gen_evaluate lib hyp refs self = (None, self)"
    by (simp add: gen_evaluate_empty)
next
  assume "hyp \<noteq> [] \<and> F1Metric_compute lib hyp refs = Inl e"
  then show "gen_evaluate lib hyp refs self = (Some e, self)"
    by (simp add: gen_evaluate_f1_raises)
next
  assume a: "hyp \<noteq> [] \<and> F1Metric_compute lib hyp refs = Inr f1 \<and>
    BleuMetric_compute lib hyp refs 1 = Inr bleu1 \<and>
    BleuMetric_compute lib hyp refs 2 = Inr bleu2 \<and>
    BleuMetric_compute lib hyp refs 3 = Inr bleu3 \<and>
    BleuMetric_compute lib hyp refs 4 = Inr bleu4"
  let ?s1 = "self\<lparr>gen_metrics := Metrics_add ''f1'' f1 (gen_metrics self)\<rparr>"
  define bleu where "bleu k = (if k = 1 then bleu1 else if k = 2 then bleu2
                               else if k = 3 then bleu3 else bleu4)" for k :: nat
  have "\<forall>k\<in>set [1, 2, 3, 4]. BleuMetric_compute lib hyp refs k = Inr (bleu k)"
    using a by (simp add: bleu_def)
  from gen_evaluate_loop_returns [OF this, of ?s1]
  obtain s2 where loop: "gen_evaluate_loop lib hyp refs [1..<5] ?s1 = (None, s2)"
    and metrics: "gen_metrics s2 = gen_metrics self @
             [(''f1'', f1), (''bleu@1'', bleu1), (''bleu@2'', bleu2), (''bleu@3'', bleu3),
              (''bleu@4'', bleu4)]"
    unfolding range_1_5
    by (cases "gen_evaluate_loop lib hyp refs [1, 2, 3, 4] ?s1")
       (simp add: bleu_def Metrics_add_def str_nat_digits)
  have cnt: "dist_cnt s2 = dist_cnt self"
    using gen_evaluate_loop_fields(1) [of lib hyp refs "[1..<5]" ?s1] loop by simp
  let ?s3 = "s2\<lparr>dist_cnt := dist_cnt s2 + 1\<rparr>"
  have run: "gen_evaluate lib hyp refs self = embedding_metrics lib hyp refs ?s3"
    using a loop by (simp add: gen_evaluate_def)
  show "dist_cnt (snd (gen_evaluate lib hyp refs self)) = dist_cnt self + 1"
    by (simp add: run embedding_metrics_fields cnt)
  from embedding_metrics_added [of lib hyp refs ?s3]
  show "\<exists>more.
         gen_metrics (snd (gen_evaluate lib hyp refs self)) =
           gen_metrics self @
             [(''f1'', f1), (''bleu@1'', bleu1), (''bleu@2'', bleu2), (''bleu@3'', bleu3),
              (''bleu@4'', bleu4)] @ more \<and>
         map fst more = take (length more) [''greedy'', ''average'', ''extreme''] \<and>
         (fst (gen_evaluate lib hyp refs self) = None \<longleftrightarrow> length more = 3)"
    unfolding run by (auto simp: metrics)
qed

lemma str_nat_Suc:
  "str_nat (Suc (Suc 0)) = ''2''" "str_nat (Suc (Suc (Suc 0))) = ''3''"
  "str_nat (Suc (Suc (Suc (Suc 0)))) = ''4''"
  by code_simp+

theorem gen_evaluate_accumulates_witness:
  "gen_evaluate
     \<lparr>F1Metric_compute = (\<lambda>hyp refs. if refs = [] then Inl ValueError else Inr (0::nat)),
      BleuMetric_compute = (\<lambda>hyp refs k. Inr k),
      GreedyMatch_compute = (\<lambda>h r. Inr 0), EmbeddingAverage_compute = (\<lambda>h r. Inr 0),
      VectorExtrema_compute = (\<lambda>h r. Inr 0), AverageMetric_div = (\<lambda>n d. n)\<rparr>
     [] [''a b''] (ConvEvaluator_init :: (nat, nat) ConvEvaluator) = (None, ConvEvaluator_init) \<and>
   dist_cnt (snd (gen_evaluate
     \<lparr>F1Metric_compute = (\<lambda>hyp refs. if refs = [] then Inl ValueError else Inr (0::nat)),
      BleuMetric_compute = (\<lambda>hyp refs k. Inr k),
      GreedyMatch_compute = (\<lambda>h r. Inr 0), EmbeddingAverage_compute = (\<lambda>h r. Inr 0),
      VectorExtrema_compute = (\<lambda>h r. Inr 0), AverageMetric_div = (\<lambda>n d. n)\<rparr>
     ''a c'' [''a b''] (ConvEvaluator_init :: (nat, nat) ConvEvaluator))) = 1 \<and>
   (\<exists>more. gen_metrics (snd (gen_evaluate
     \<lparr>F1Metric_compute = (\<lambda>hyp refs. if refs = [] then Inl ValueError else Inr (0::nat)),
      BleuMetric_compute = (\<lambda>hyp refs k. Inr k),
      GreedyMatch_compute = (\<lambda>h r. Inr 0), EmbeddingAverage_compute = (\<lambda>h r. Inr 0),
      VectorExtrema_compute = (\<lambda>h r. Inr 0), AverageMetric_div = (\<lambda>n d. n)\<rparr>
     ''a c'' [''a b''] (ConvEvaluator_init :: (nat, nat) ConvEvaluator)))
      = [(''f1'', 0), (''bleu@1'', 1), (''bleu@2'', 2), (''bleu@3'', 3), (''bleu@4'', 4)] @ more) \<and>
   gen_evaluate
     \<lparr>F1Metric_compute = (\<lambda>hyp refs. if refs = [] then Inl ValueError else Inr (0::nat)),
      BleuMetric_compute = (\<lambda>hyp refs k. Inr k),
      GreedyMatch_compute = (\<lambda>h r. Inr 0), EmbeddingAverage_compute = (\<lambda>h r. Inr 0),
      VectorExtrema_compute = (\<lambda>h r. Inr 0), AverageMetric_div = (\<lambda>n d. n)\<rparr>
     ''a c'' [] (ConvEvaluator_init :: (nat, nat) ConvEvaluator)
     = (Some ValueError, ConvEvaluator_init)"
proof -
  let ?lib = "\<lparr>F1Metric_compute = (\<lambda>hyp refs. if refs = [] then Inl ValueError else Inr (0::nat)),
      BleuMetric_compute = (\<lambda>hyp refs k. Inr k),
      GreedyMatch_compute = (\<lambda>h r. Inr (0::nat)), EmbeddingAverage_compute = (\<lambda>h r. Inr 0),
      VectorExtrema_compute = (\<lambda>h r. Inr 0), AverageMetric_div = (\<lambda>n d. n)\<rparr>"
  let ?init = "ConvEvaluator_init :: (nat, nat) ConvEvaluator"
  have a: "gen_evaluate ?lib [] [''a b''] ?init = (None, ?init)"
    using gen_evaluate_accumulates [where hyp = "[]" and lib = ?lib and refs = "[''a b'']"
        and self = ?init]
    by simp
  from gen_evaluate_accumulates [where hyp = "''a c''" and lib = ?lib and refs = "[''a b'']"
      and self = ?init and ?f1.0 = 0 and ?bleu1.0 = 1 and ?bleu2.0 = 2 and ?bleu3.0 = 3 and ?bleu4.0 = 4]
  have c: "dist_cnt (snd (gen_evaluate ?lib ''a c'' [''a b''] ?init)) = 1"
    and d: "\<exists>more. gen_metrics (snd (gen_evaluate ?lib ''a c'' [''a b''] ?init))
      = [(''f1'', 0), (''bleu@1'', 1), (''bleu@2'', 2), (''bleu@3'', 3), (''bleu@4'', 4)] @ more"
    by (auto simp: ConvEvaluator_init_def Metrics_new_def)
  have e: "gen_evaluate ?lib ''a c'' [] ?init = (Some ValueError, ?init)"
    using gen_evaluate_accumulates [where hyp = "''a c''" and lib = ?lib and refs = "[]"
        and self = ?init and e = ValueError]
    by simp
  from a c d e show ?thesis by blast
qed

text \<open>
  Claim C6, as stated for every non-empty \<open>hyp\<close>, fails when a metric computation
  raises before anything is added. With a \<open>F1Metric.compute\<close> that raises
  \<open>ValueError\<close> for an empty list of references (it takes the maximum of one score
  for each reference), the call on the non-empty \<open>hyp\<close> \<open>'ab'\<close> raises and leaves a
  new evaluator as it was: nothing is added to \<open>gen_metrics\<close> and \<open>dist_cnt\<close> stays 0.
\<close>

theorem gen_evaluate_nonempty_adds_nothing:
  "''ab'' \<noteq> [] \<and>
   gen_evaluate
     \<lparr>F1Metric_compute = (\<lambda>hyp refs. if refs = [] then Inl ValueError else Inr (0::nat)),
      BleuMetric_compute = (\<lambda>hyp refs k. Inr k),
      GreedyMatch_compute = (\<lambda>h r. Inr 0), EmbeddingAverage_compute = (\<lambda>h r. Inr 0),
      VectorExtrema_compute = (\<lambda>h r. Inr 0), AverageMetric_div = (\<lambda>n d. n)\<rparr>
     ''ab'' [] (ConvEvaluator_init :: (nat, nat) ConvEvaluator)
     = (Some ValueError, ConvEvaluator_init) \<and>
   gen_metrics (ConvEvaluator_init :: (nat, nat) ConvEvaluator) = [] \<and>
   dist_cnt (ConvEvaluator_init :: (nat, nat) ConvEvaluator) = 0"
  by (simp add: gen_evaluate_def ConvEvaluator_init_def Metrics_new_def)

text \<open>
  An embedding metric that raises leaves the metrics added before it and the
  incremented \<open>dist_cnt\<close>: the hypothesis \<open>' '\<close> is not empty and has no token, and
  \<open>GreedyMatch.compute\<close> raises here for the empty embedding.
\<close>

lemma gen_evaluate_greedy_raises:
  "gen_evaluate
     \<lparr>F1Metric_compute = (\<lambda>hyp refs. Inr (0::nat)),
      BleuMetric_compute = (\<lambda>hyp refs k. Inr k),
      GreedyMatch_compute = (\<lambda>h r. if h = [] then Inl ValueError else Inr 0),
      EmbeddingAverage_compute = (\<lambda>h r. Inr 0),
      VectorExtrema_compute = (\<lambda>h r. Inr 0), AverageMetric_div = (\<lambda>n d. n)\<rparr>
     '' '' ['' ''] (ConvEvaluator_init :: (nat, nat) ConvEvaluator)
     = (Some ValueError,
        \<lparr>dist_set = [(''dist@1'', {'' ''})], dist_cnt = 1,
         gen_metrics = [(''f1'', 0), (''bleu@1'', 1), (''bleu@2'', 2), (''bleu@3'', 3),
                        (''bleu@4'', 4)],
         optim_metrics = [], ft = None\<rparr>)"
  by (simp add: gen_evaluate_def gen_evaluate_k_def embedding_metrics_def
      ConvEvaluator_init_def get_sent_embedding_def py_split_def py_isspace_def
      ngrams_def Metrics_add_def Metrics_new_def range_1_5 str_nat_digits str_nat_Suc upt_rec)

lemma reset_metrics_eq: "reset_metrics self = ConvEvaluator_init\<lparr>ft := ft self\<rparr>"
  by (simp add: reset_metrics_def ConvEvaluator_init_def Metrics_clear_def Metrics_new_def)

lemma ft_after_evaluations:
  "ft (foldl (\<lambda>self (hyp, refs). snd (gen_evaluate lib hyp refs self)) s calls) = ft s"
  by (induction calls arbitrary: s) (simp_all add: gen_evaluate_ft split: prod.splits)

lemma reset_after_evaluations:
  "reset_metrics
     (foldl (\<lambda>self (hyp, refs). snd (gen_evaluate lib hyp refs self)) ConvEvaluator_init calls)
     = ConvEvaluator_init"
proof -
  have "ft (foldl (\<lambda>self (hyp, refs). snd (gen_evaluate lib hyp refs self))
              ConvEvaluator_init calls) = None"
    by (simp add: ft_after_evaluations) (simp add: ConvEvaluator_init_def)
  then show ?thesis
    by (simp add: reset_metrics_eq) (simp add: ConvEvaluator_init_def)
qed

lemma rec_reset_metrics_eq: "rec_reset_metrics self = RecEvaluator_init"
  by (simp add: rec_reset_metrics_def RecEvaluator_init_def Metrics_clear_def Metrics_new_def)

text \<open>
  Claim C8. After \<open>ConvEvaluator.reset_metrics\<close>, \<open>gen_metrics\<close> and \<open>optim_metrics\<close> are
  empty, \<open>dist_cnt\<close> is 0 and \<open>dist_set\<close> is empty: the state of \<open>__init__\<close> in these
  four attributes, the embedding model being kept; after any number of
  \<open>gen_evaluate\<close> calls on a new evaluator the reset state is the state of \<open>__init__\<close>.
  After \<open>RecEvaluator.reset_metrics\<close>, \<open>rec_metrics\<close> and \<open>optim_metrics\<close> are empty,
  the state of \<open>__init__\<close>, whatever calls preceded.
\<close>

theorem reset_metrics_restores_init:
  "reset_metrics self = ConvEvaluator_init\<lparr>ft := ft self\<rparr> \<and>
   gen_metrics (reset_metrics self) = [] \<and>
   ConvEvaluator.optim_metrics (reset_metrics self) = [] \<and>
   dist_cnt (reset_metrics self) = 0 \<and>
   dist_set (reset_metrics self) = [] \<and>
   reset_metrics
     (foldl (\<lambda>self (hyp, refs). snd (gen_evaluate lib hyp refs self)) ConvEvaluator_init calls)
     = ConvEvaluator_init \<and>
   rec_reset_metrics rec_self = RecEvaluator_init \<and>
   rec_metrics (rec_reset_metrics rec_self) = [] \<and>
   RecEvaluator.optim_metrics (rec_reset_metrics rec_self) = [] \<and>
   rec_reset_metrics
     (foldl (\<lambda>self (ranks, label). rec_evaluate rec_lib ranks label self) RecEvaluator_init
        rec_calls)
     = RecEvaluator_init"
  by (intro conjI reset_metrics_eq reset_after_evaluations rec_reset_metrics_eq)
     (simp_all add: reset_metrics_def rec_reset_metrics_def Metrics_clear_def)









end
